theory Spec2Isabelle
  imports Main "HOL-Library.Word" "HOL-Library.Code_Target_Nat"
begin

unbundle bit_operations_syntax

section \<open>Sizing constants and machine types\<close>

text \<open>
  The model follows the second revision of arrayfs (the one with directories, a disk inode
  bitmap and a page store).  Machine types are those of an LP64 little-endian Linux target
  (x86-64): \<open>unsigned long\<close> is 64 bits wide, \<open>u32\<close> 32 bits, \<open>umode_t\<close> 16 bits, and a
  multi-byte object is stored least significant byte first.
\<close>

type_synonym byte = "8 word"
type_synonym ulong = "64 word"
type_synonym u32 = "32 word"
type_synonym umode_t = "16 word"

definition ARRAYFS_NR_INODES :: nat where
  "ARRAYFS_NR_INODES = 32"

definition ARRAYFS_NR_PGS_PER_FILE :: nat where
  "ARRAYFS_NR_PGS_PER_FILE = 8"

text \<open>\<open>PAGE_SIZE\<close> is the kernel's macro; the first revision of the file system spells it
  out as 4096, the value on x86-64.\<close>

definition PAGE_SIZE :: nat where
  "PAGE_SIZE = 4096"

text \<open>File type bits of a mode and directory entry types, from the kernel headers.\<close>

definition S_IFMT :: umode_t where
  "S_IFMT = 0xF000"

definition S_IFREG :: umode_t where
  "S_IFREG = 0x8000"

definition S_IFDIR :: umode_t where
  "S_IFDIR = 0x4000"

definition S_ISREG :: "umode_t \<Rightarrow> bool" where
  "S_ISREG m \<longleftrightarrow> m AND S_IFMT = S_IFREG"

definition DT_DIR :: nat where
  "DT_DIR = 4"

definition DT_REG :: nat where
  "DT_REG = 8"

datatype errno = EINVAL | ENOSPC | ENOMEM | EBUSY | EIO

section \<open>Global storage\<close>

record arrayfs_sb =
  mounted :: int
  inode_bm :: ulong

record arrayfs_disk_inode =
  mode :: umode_t
  size_bytes :: ulong

text \<open>
  \<open>global_data\<close> is the three-dimensional \<open>char\<close> array of the source, kept as the flat
  sequence of bytes that C lays it out as: the byte \<open>global_data[ino][pg][off]\<close> lives at
  \<open>gd_addr ino pg off\<close>.  \<open>global_inodes\<close> is indexed by inode number.  Locks carry no data
  in a sequential model and are left out.
\<close>

record arrayfs_state =
  global_sb :: arrayfs_sb
  global_inodes :: "nat \<Rightarrow> arrayfs_disk_inode"
  global_data :: "nat \<Rightarrow> byte"
  disk_inode_bm :: ulong

definition gd_addr :: "nat \<Rightarrow> nat \<Rightarrow> nat \<Rightarrow> nat" where
  "gd_addr ino pg off = (ino * ARRAYFS_NR_PGS_PER_FILE + pg) * PAGE_SIZE + off"

section \<open>Memory primitives\<close>

definition load_bytes :: "(nat \<Rightarrow> byte) \<Rightarrow> nat \<Rightarrow> nat \<Rightarrow> byte list" where
  "load_bytes m a n = map (\<lambda>k. m (a + k)) [0..<n]"

text \<open>Little-endian load and store of an \<open>n\<close>-byte unsigned integer.\<close>

definition load_le :: "(nat \<Rightarrow> byte) \<Rightarrow> nat \<Rightarrow> nat \<Rightarrow> 'a::len word" where
  "load_le m a n = word_of_int (horner_sum uint 256 (load_bytes m a n))"

definition store_le :: "(nat \<Rightarrow> byte) \<Rightarrow> nat \<Rightarrow> nat \<Rightarrow> 'a::len word \<Rightarrow> (nat \<Rightarrow> byte)" where
  "store_le m a n w = (\<lambda>x. if a \<le> x \<and> x < a + n then ucast (drop_bit (8 * (x - a)) w) else m x)"

definition load_ulong :: "(nat \<Rightarrow> byte) \<Rightarrow> nat \<Rightarrow> ulong" where
  "load_ulong m a = load_le m a 8"

definition store_ulong :: "(nat \<Rightarrow> byte) \<Rightarrow> nat \<Rightarrow> ulong \<Rightarrow> (nat \<Rightarrow> byte)" where
  "store_ulong m a w = store_le m a 8 w"

definition load_u32 :: "(nat \<Rightarrow> byte) \<Rightarrow> nat \<Rightarrow> u32" where
  "load_u32 m a = load_le m a 4"

definition store_u32 :: "(nat \<Rightarrow> byte) \<Rightarrow> nat \<Rightarrow> u32 \<Rightarrow> (nat \<Rightarrow> byte)" where
  "store_u32 m a w = store_le m a 4 w"

text \<open>
  A name handed in by the caller is a list of bytes; the C string it denotes ends at the
  first NUL byte, or at the end of the list.  \<open>cstr_nth name i\<close> is \<open>name[i]\<close> for every
  \<open>i\<close> up to and including the terminator.
\<close>

definition c_str :: "byte list \<Rightarrow> byte list" where
  "c_str name = takeWhile (\<lambda>c. c \<noteq> 0) name"

definition cstr_nth :: "byte list \<Rightarrow> nat \<Rightarrow> byte" where
  "cstr_nth name i = (if i < length (c_str name) then c_str name ! i else 0)"

definition bytes_of :: "string \<Rightarrow> byte list" where
  "bytes_of cs = map (\<lambda>c. of_nat (of_char c)) cs"

text \<open>\<open>strcpy\<close> copies the characters and the terminator, however many there are.\<close>

definition strcpy :: "(nat \<Rightarrow> byte) \<Rightarrow> nat \<Rightarrow> byte list \<Rightarrow> (nat \<Rightarrow> byte)" where
  "strcpy m dst src =
     (\<lambda>x. if dst \<le> x \<and> x < dst + length (c_str src) + 1 then cstr_nth src (x - dst) else m x)"

text \<open>\<open>strlen\<close> of the string at address \<open>a\<close>; the search stops at \<open>lim\<close>, the end of the
  array the string lives in.\<close>

function strlen_upto :: "(nat \<Rightarrow> byte) \<Rightarrow> nat \<Rightarrow> nat \<Rightarrow> nat" where
  "strlen_upto m a lim =
     (if lim \<le> a then 0 else if m a = 0 then 0 else Suc (strlen_upto m (Suc a) lim))"
  by pat_completeness auto
termination
  by (relation "measure (\<lambda>(m, a, lim). lim - a)") auto

declare strlen_upto.simps [simp del]

definition memcpy :: "(nat \<Rightarrow> byte) \<Rightarrow> nat \<Rightarrow> byte list \<Rightarrow> nat \<Rightarrow> (nat \<Rightarrow> byte)" where
  "memcpy m dst src n = (\<lambda>x. if dst \<le> x \<and> x < dst + n then src ! (x - dst) else m x)"

section \<open>Bitmap search\<close>

text \<open>
  The kernel's bitmap searches, by their contract: the number of the first clear (set) bit
  at or after the start, or the size if there is none.  \<open>set_bit\<close> and \<open>clear_bit\<close> of the
  kernel are \<^const>\<open>set_bit\<close> and \<^const>\<open>unset_bit\<close>.
\<close>

definition find_first_zero_bit :: "ulong \<Rightarrow> nat \<Rightarrow> nat" where
  "find_first_zero_bit w sz =
     (case List.find (\<lambda>i. \<not> bit w i) [0..<sz] of None \<Rightarrow> sz | Some i \<Rightarrow> i)"

definition find_next_bit :: "ulong \<Rightarrow> nat \<Rightarrow> nat \<Rightarrow> nat" where
  "find_next_bit w sz off =
     (case List.find (\<lambda>i. bit w i) [off..<sz] of None \<Rightarrow> sz | Some i \<Rightarrow> i)"

section \<open>Directory data inside page 0\<close>

text \<open>
  \<open>struct arrayfs_dir_data\<close> overlays page 0 of the directory's data: the bitmap at offset
  0, then 64 entries of 36 bytes each, a 32-byte name followed by the 4-byte inode number.
\<close>

definition dir_data_addr :: "nat \<Rightarrow> nat" where
  "dir_data_addr dirino = gd_addr dirino 0 0"

definition entry_name_addr :: "nat \<Rightarrow> nat \<Rightarrow> nat" where
  "entry_name_addr dd idx = dd + 8 + 36 * idx"

definition entry_ino_addr :: "nat \<Rightarrow> nat \<Rightarrow> nat" where
  "entry_ino_addr dd idx = dd + 8 + 36 * idx + 32"

definition dir_bitmap :: "arrayfs_state \<Rightarrow> nat \<Rightarrow> ulong" where
  "dir_bitmap s dirino = load_ulong (global_data s) (dir_data_addr dirino)"

definition entry_name :: "arrayfs_state \<Rightarrow> nat \<Rightarrow> nat \<Rightarrow> byte list" where
  "entry_name s dirino idx =
     load_bytes (global_data s) (entry_name_addr (dir_data_addr dirino) idx) 32"

definition entry_ino :: "arrayfs_state \<Rightarrow> nat \<Rightarrow> nat \<Rightarrow> nat" where
  "entry_ino s dirino idx =
     unat (load_u32 (global_data s) (entry_ino_addr (dir_data_addr dirino) idx))"

section \<open>The host's part\<close>

text \<open>
  The file system runs inside the kernel's VFS.  What the VFS decides on its own is an
  input of the model: whether its part of allocating an inode object succeeds, whether
  \<open>insert_inode_locked\<close> accepts the new inode, whether \<open>iget_locked\<close> finds the inode in
  the inode cache, and whether \<open>d_make_root\<close> can allocate the root dentry.
\<close>

record vfs_env =
  kernel_alloc_ok :: bool
  insert_inode_ok :: bool
  icache_hit :: bool
  d_make_root_ok :: bool

definition vfs_ok :: vfs_env where
  "vfs_ok = \<lparr>kernel_alloc_ok = True, insert_inode_ok = True, icache_hit = False,
             d_make_root_ok = True\<rparr>"

section \<open>In-memory inodes\<close>

definition arrayfs_alloc_inode :: "arrayfs_state \<Rightarrow> nat option \<times> arrayfs_state" where
  "arrayfs_alloc_inode s =
     (let pa = find_first_zero_bit (inode_bm (global_sb s)) ARRAYFS_NR_INODES in
      if pa = ARRAYFS_NR_INODES then (None, s)
      else (Some pa,
            s\<lparr>global_sb := (global_sb s)\<lparr>inode_bm := set_bit pa (inode_bm (global_sb s))\<rparr>\<rparr>))"

text \<open>
  The kernel's \<open>alloc_inode\<close>, behind both \<open>new_inode\<close> and a cache miss of
  \<open>iget_locked\<close>: it asks the file system's \<open>alloc_inode\<close> operation for the object and
  then initialises it.  If the initialisation fails the object goes to
  \<open>arrayfs_destroy_inode\<close>, which leaves the bitmap as it is.
\<close>

definition alloc_inode :: "arrayfs_state \<Rightarrow> vfs_env \<Rightarrow> nat option \<times> arrayfs_state" where
  "alloc_inode s env =
     (case arrayfs_alloc_inode s of
        (None, s') \<Rightarrow> (None, s')
      | (Some pa, s') \<Rightarrow> if kernel_alloc_ok env then (Some pa, s') else (None, s'))"

section \<open>Disk inodes\<close>

text \<open>The critical section of \<open>arrayfs_new_inode\<close> under \<open>cp_lock\<close>: find the first clear
  bit of the disk inode bitmap and set it.\<close>

definition disk_inode_claim :: "arrayfs_state \<Rightarrow> nat option \<times> arrayfs_state" where
  "disk_inode_claim s =
     (let ino = find_first_zero_bit (disk_inode_bm s) ARRAYFS_NR_INODES in
      if ino = ARRAYFS_NR_INODES then (None, s)
      else (Some ino, s\<lparr>disk_inode_bm := set_bit ino (disk_inode_bm s)\<rparr>))"

text \<open>The result is the number of the new inode, which stands for the inode handle.\<close>

definition arrayfs_new_inode ::
  "arrayfs_state \<Rightarrow> umode_t \<Rightarrow> vfs_env \<Rightarrow> (errno + nat) \<times> arrayfs_state" where
  "arrayfs_new_inode s md env =
     (case alloc_inode s env of
        (None, s1) \<Rightarrow> (Inl ENOMEM, s1)
      | (Some pa, s1) \<Rightarrow>
          (case disk_inode_claim s1 of
             (None, s2) \<Rightarrow> (Inl ENOSPC, s2)
           | (Some ino, s2) \<Rightarrow>
               (let s3 = s2\<lparr>global_inodes :=
                             (global_inodes s2)(ino := \<lparr>mode = md, size_bytes = 0\<rparr>)\<rparr>
                in if insert_inode_ok env then (Inr ino, s3)
                   else (Inl EINVAL, s3\<lparr>disk_inode_bm := unset_bit ino (disk_inode_bm s3)\<rparr>))))"

section \<open>Directory operations\<close>

definition arrayfs_create ::
  "arrayfs_state \<Rightarrow> nat \<Rightarrow> byte list \<Rightarrow> umode_t \<Rightarrow> vfs_env \<Rightarrow> (errno + unit) \<times> arrayfs_state" where
  "arrayfs_create s dirino name md env =
     (if dirino \<ge> ARRAYFS_NR_INODES then (Inl EINVAL, s)
      else
        let dir_data = dir_data_addr dirino;
            idx = find_first_zero_bit (load_ulong (global_data s) dir_data) 64
        in if idx = 64 then (Inl ENOSPC, s)
           else
             let s1 = s\<lparr>global_data :=
                         store_ulong (global_data s) dir_data
                           (set_bit idx (load_ulong (global_data s) dir_data))\<rparr>
             in case arrayfs_new_inode s1 md env of
                  (Inl e, s2) \<Rightarrow> (Inl e, s2)
                | (Inr ino, s2) \<Rightarrow>
                    (let d1 = strcpy (global_data s2) (entry_name_addr dir_data idx) name;
                         d2 = store_u32 d1 (entry_ino_addr dir_data idx) (of_nat ino)
                     in (Inr (), s2\<lparr>global_data := d2\<rparr>)))"

text \<open>\<open>arrayfs_mkdir\<close> differs from \<open>arrayfs_create\<close> only in the operation tables it hangs
  on the new inode object, which belong to the host.\<close>

definition arrayfs_mkdir ::
  "arrayfs_state \<Rightarrow> nat \<Rightarrow> byte list \<Rightarrow> umode_t \<Rightarrow> vfs_env \<Rightarrow> (errno + unit) \<times> arrayfs_state" where
  "arrayfs_mkdir s dirino name md env =
     (if dirino \<ge> ARRAYFS_NR_INODES then (Inl EINVAL, s)
      else
        let dir_data = dir_data_addr dirino;
            idx = find_first_zero_bit (load_ulong (global_data s) dir_data) 64
        in if idx = 64 then (Inl ENOSPC, s)
           else
             let s1 = s\<lparr>global_data :=
                         store_ulong (global_data s) dir_data
                           (set_bit idx (load_ulong (global_data s) dir_data))\<rparr>
             in case arrayfs_new_inode s1 md env of
                  (Inl e, s2) \<Rightarrow> (Inl e, s2)
                | (Inr ino, s2) \<Rightarrow>
                    (let d1 = strcpy (global_data s2) (entry_name_addr dir_data idx) name;
                         d2 = store_u32 d1 (entry_ino_addr dir_data idx) (of_nat ino)
                     in (Inr (), s2\<lparr>global_data := d2\<rparr>)))"

text \<open>\<open>str_same a b\<close>, with the two character pointers as index functions.\<close>

function str_same_loop :: "(nat \<Rightarrow> byte) \<Rightarrow> (nat \<Rightarrow> byte) \<Rightarrow> nat \<Rightarrow> bool" where
  "str_same_loop a b i =
     (if i < 32 then
        (if a i \<noteq> b i then False
         else if a i = 0 then True
         else str_same_loop a b (Suc i))
      else True)"
  by pat_completeness auto
termination
  by (relation "measure (\<lambda>(a, b, i). 32 - i)") auto

declare str_same_loop.simps [simp del]

definition str_same :: "(nat \<Rightarrow> byte) \<Rightarrow> (nat \<Rightarrow> byte) \<Rightarrow> bool" where
  "str_same a b = str_same_loop a b 0"

definition arrayfs_read_inode :: "arrayfs_state \<Rightarrow> nat \<Rightarrow> errno + arrayfs_disk_inode" where
  "arrayfs_read_inode s ino =
     (if ino \<ge> ARRAYFS_NR_INODES then Inl EINVAL else Inr (global_inodes s ino))"

text \<open>\<open>arrayfs_iget\<close>: a cached inode is returned as it is; a new one costs an in-memory
  inode object and is filled from the disk inode.\<close>

definition arrayfs_iget ::
  "arrayfs_state \<Rightarrow> nat \<Rightarrow> vfs_env \<Rightarrow> (errno + nat) \<times> arrayfs_state" where
  "arrayfs_iget s ino env =
     (if icache_hit env then (Inr ino, s)
      else case alloc_inode s env of
             (None, s1) \<Rightarrow> (Inl ENOMEM, s1)
           | (Some pa, s1) \<Rightarrow>
               (case arrayfs_read_inode s1 ino of
                  Inl e \<Rightarrow> (Inl e, s1)
                | Inr di \<Rightarrow> (Inr ino, s1)))"

text \<open>The loop of \<open>arrayfs_lookup\<close>; \<open>start\<close> is \<open>index + 1\<close>.  The result \<open>Inr None\<close> is the
  negative dentry of a miss, \<open>Inr (Some ino)\<close> the dentry spliced to inode \<open>ino\<close>.\<close>

function lookup_loop ::
  "arrayfs_state \<Rightarrow> nat \<Rightarrow> byte list \<Rightarrow> vfs_env \<Rightarrow> nat \<Rightarrow> (errno + nat option) \<times> arrayfs_state" where
  "lookup_loop s dirdata name env start =
     (let idx = find_next_bit (load_ulong (global_data s) dirdata) 64 start in
      if idx \<ge> 64 then (Inr None, s)
      else if str_same (\<lambda>i. global_data s (entry_name_addr dirdata idx + i)) (cstr_nth name)
      then
        (let child_ino = unat (load_u32 (global_data s) (entry_ino_addr dirdata idx)) in
         case arrayfs_iget s child_ino env of
           (Inl e, s') \<Rightarrow> (Inl EIO, s')
         | (Inr child_inode, s') \<Rightarrow> (Inr (Some child_inode), s'))
      else lookup_loop s dirdata name env (Suc idx))"
  by pat_completeness auto
termination
proof (relation "measure (\<lambda>(s, dirdata, name, env, start). 64 - start)")
  show "wf (measure (\<lambda>(s, dirdata, name, env, start). 64 - start))"
    by simp
next
  fix s :: arrayfs_state and dirdata :: nat and name :: "byte list" and env :: vfs_env
    and start idx :: nat
  assume idx: "idx = find_next_bit (load_ulong (global_data s) dirdata) 64 start"
    and lt: "\<not> 64 \<le> idx"
  have "start \<le> idx"
    using idx lt
    by (auto simp: find_next_bit_def find_Some_iff split: option.splits)
  with lt show "((s, dirdata, name, env, Suc idx), (s, dirdata, name, env, start))
      \<in> measure (\<lambda>(s, dirdata, name, env, start). 64 - start)"
    by simp
qed

declare lookup_loop.simps [simp del]

definition arrayfs_lookup ::
  "arrayfs_state \<Rightarrow> nat \<Rightarrow> byte list \<Rightarrow> vfs_env \<Rightarrow> (errno + nat option) \<times> arrayfs_state" where
  "arrayfs_lookup s dir_ino name env =
     (if dir_ino \<ge> ARRAYFS_NR_INODES then (Inl EINVAL, s)
      else lookup_loop s (dir_data_addr dir_ino) name env 0)"

section \<open>Reading a directory\<close>

text \<open>
  What \<open>dir_emit\<close> hands to the caller's actor: name, name length, the cursor at the time
  of the call, inode number and type.  The context keeps the cursor and, in \<open>emitted\<close>,
  the entries the actor has accepted so far; whether the actor accepts one more entry
  (it declines when its buffer is full) is the caller's decision \<open>actor\<close>.
\<close>

record dirent =
  d_name :: "byte list"
  d_namelen :: nat
  d_off :: nat
  d_ino :: nat
  d_type :: nat

record dir_context =
  pos :: nat
  emitted :: "dirent list"

definition dir_emit ::
  "(dirent list \<Rightarrow> dirent \<Rightarrow> bool) \<Rightarrow> dir_context \<Rightarrow> byte list \<Rightarrow> nat \<Rightarrow> nat \<Rightarrow> nat
     \<Rightarrow> bool \<times> dir_context" where
  "dir_emit actor ctx name namelen ino type =
     (let e = \<lparr>d_name = name, d_namelen = namelen, d_off = pos ctx, d_ino = ino, d_type = type\<rparr>
      in if actor (emitted ctx) e then (True, ctx\<lparr>emitted := emitted ctx @ [e]\<rparr>)
         else (False, ctx))"

text \<open>The entry that \<open>arrayfs_readdir\<close> emits for slot \<open>idx\<close> of the directory data at
  \<open>data\<close> when the cursor is \<open>off\<close>.\<close>

definition dirent_at :: "arrayfs_state \<Rightarrow> nat \<Rightarrow> nat \<Rightarrow> nat \<Rightarrow> dirent" where
  "dirent_at s data off idx =
     (let child_ino = unat (load_u32 (global_data s) (entry_ino_addr data idx));
          namelen = strlen_upto (global_data s) (entry_name_addr data idx)
                      (gd_addr ARRAYFS_NR_INODES 0 0)
      in \<lparr>d_name = load_bytes (global_data s) (entry_name_addr data idx) namelen,
          d_namelen = namelen,
          d_off = off,
          d_ino = child_ino,
          d_type = (if S_ISREG (mode (global_inodes s child_ino)) then DT_REG else DT_DIR)\<rparr>)"

function readdir_loop ::
  "arrayfs_state \<Rightarrow> nat \<Rightarrow> (dirent list \<Rightarrow> dirent \<Rightarrow> bool) \<Rightarrow> dir_context
     \<Rightarrow> (errno + nat) \<times> dir_context" where
  "readdir_loop s data actor ctx =
     (let idx = find_next_bit (load_ulong (global_data s) data) 64 (pos ctx) in
      if idx = 64 then (Inr 0, ctx\<lparr>pos := 64\<rparr>)
      else
        let child_ino = unat (load_u32 (global_data s) (entry_ino_addr data idx)) in
        if child_ino \<ge> ARRAYFS_NR_INODES then (Inr 1, ctx)
        else
          let type = (if S_ISREG (mode (global_inodes s child_ino)) then DT_REG else DT_DIR);
              namelen = strlen_upto (global_data s) (entry_name_addr data idx)
                          (gd_addr ARRAYFS_NR_INODES 0 0);
              name = load_bytes (global_data s) (entry_name_addr data idx) namelen;
              r = dir_emit actor ctx name namelen child_ino type
          in if \<not> fst r then (Inr 1, snd r)
             else readdir_loop s data actor ((snd r)\<lparr>pos := idx + 1\<rparr>))"
  by pat_completeness auto
termination
proof (relation "measure (\<lambda>(s, data, actor, ctx). 64 - pos ctx)")
  show "wf (measure (\<lambda>(s, data, actor, ctx). 64 - pos ctx))"
    by simp
next
  fix s :: arrayfs_state and data :: nat and actor :: "dirent list \<Rightarrow> dirent \<Rightarrow> bool"
    and ctx :: dir_context and idx :: nat and r :: "bool \<times> dir_context"
  assume idx: "idx = find_next_bit (load_ulong (global_data s) data) 64 (pos ctx)"
    and ne: "idx \<noteq> 64"
  have "pos ctx \<le> idx \<and> idx < 64"
    using idx ne
    by (auto simp: find_next_bit_def find_Some_iff split: option.splits)
  then have "64 - (idx + 1) < 64 - pos ctx"
    by arith
  then show "((s, data, actor, (snd r)\<lparr>pos := idx + 1\<rparr>), (s, data, actor, ctx))
      \<in> measure (\<lambda>(s, data, actor, ctx). 64 - pos ctx)"
    by simp
qed

declare readdir_loop.simps [simp del]

definition arrayfs_readdir ::
  "arrayfs_state \<Rightarrow> nat \<Rightarrow> (dirent list \<Rightarrow> dirent \<Rightarrow> bool) \<Rightarrow> dir_context
     \<Rightarrow> (errno + nat) \<times> dir_context" where
  "arrayfs_readdir s ino actor ctx =
     (if ino \<ge> ARRAYFS_NR_INODES then (Inl EINVAL, ctx)
      else readdir_loop s (dir_data_addr ino) actor ctx)"

section \<open>Pages\<close>

text \<open>A page of the page cache: the inode number of its mapping's host, its index in the
  file, its bytes and the two flags the file system touches.\<close>

record page =
  host_ino :: nat
  page_index :: nat
  page_data :: "byte list"
  PG_uptodate :: bool
  PG_dirty :: bool

definition arrayfs_read_datapage :: "arrayfs_state \<Rightarrow> page \<Rightarrow> int \<times> page" where
  "arrayfs_read_datapage s pg =
     (if page_index pg \<ge> ARRAYFS_NR_PGS_PER_FILE then (0, pg)
      else if host_ino pg \<ge> ARRAYFS_NR_INODES then (0, pg)
      else (0, pg\<lparr>page_data :=
                    load_bytes (global_data s) (gd_addr (host_ino pg) (page_index pg) 0) PAGE_SIZE,
                  PG_uptodate := True\<rparr>))"

definition arrayfs_write_datapage :: "arrayfs_state \<Rightarrow> page \<Rightarrow> int \<times> arrayfs_state \<times> page" where
  "arrayfs_write_datapage s pg =
     (if page_index pg \<ge> ARRAYFS_NR_PGS_PER_FILE then (0, s, pg)
      else if host_ino pg \<ge> ARRAYFS_NR_INODES then (0, s, pg)
      else (0,
            s\<lparr>global_data :=
                memcpy (global_data s) (gd_addr (host_ino pg) (page_index pg) 0)
                  (page_data pg) PAGE_SIZE\<rparr>,
            pg\<lparr>PG_dirty := False\<rparr>))"

section \<open>Mounting\<close>

definition arrayfs_put_super :: "arrayfs_state \<Rightarrow> arrayfs_state" where
  "arrayfs_put_super s = s\<lparr>global_sb := (global_sb s)\<lparr>mounted := 0\<rparr>\<rparr>"

text \<open>\<open>arrayfs_umount\<close> is \<open>kill_anon_super\<close>, which for a superblock that has a root calls
  the \<open>put_super\<close> operation.\<close>

definition arrayfs_umount :: "arrayfs_state \<Rightarrow> arrayfs_state" where
  "arrayfs_umount s = arrayfs_put_super s"

definition arrayfs_fill_super ::
  "arrayfs_state \<Rightarrow> vfs_env \<Rightarrow> (errno + unit) \<times> arrayfs_state" where
  "arrayfs_fill_super s env =
     (if mounted (global_sb s) \<noteq> 0 then (Inl EBUSY, s)
      else
        let s1 = s\<lparr>global_sb := (global_sb s)\<lparr>mounted := 1\<rparr>\<rparr>;
            s2 = s1\<lparr>global_sb := (global_sb s1)\<lparr>inode_bm := 0\<rparr>\<rparr>
        in case arrayfs_iget s2 0 env of
             (Inl err, s3) \<Rightarrow> (Inl err, s3\<lparr>global_sb := (global_sb s3)\<lparr>mounted := 0\<rparr>\<rparr>)
           | (Inr root_inode, s3) \<Rightarrow>
               if \<not> d_make_root_ok env
               then (Inl ENOMEM, s3\<lparr>global_sb := (global_sb s3)\<lparr>mounted := 0\<rparr>\<rparr>)
               else (Inr (), s3))"

definition S_IRWXU :: umode_t where
  "S_IRWXU = 0x1C0"

definition S_IRGRP :: umode_t where
  "S_IRGRP = 0x20"

definition S_IXGRP :: umode_t where
  "S_IXGRP = 0x8"

definition S_IROTH :: umode_t where
  "S_IROTH = 0x4"

definition S_IXOTH :: umode_t where
  "S_IXOTH = 0x1"

definition mkfs_arrayfs :: "arrayfs_state \<Rightarrow> arrayfs_state" where
  "mkfs_arrayfs s =
     s\<lparr>global_inodes :=
         (global_inodes s)
           (0 := \<lparr>mode = S_IFDIR OR S_IRWXU OR S_IRGRP OR S_IXGRP OR S_IROTH OR S_IXOTH,
                  size_bytes = 0\<rparr>),
       disk_inode_bm := set_bit 0 0,
       global_data := store_ulong (global_data s) (dir_data_addr 0) 0\<rparr>"

definition init_arrayfs :: "arrayfs_state \<Rightarrow> arrayfs_state" where
  "init_arrayfs s = (let s1 = mkfs_arrayfs s in s1\<lparr>global_sb := (global_sb s1)\<lparr>mounted := 0\<rparr>\<rparr>)"

text \<open>The storage as the loader leaves it, all zero, and the module after its
  initialisation.\<close>

definition bss_state :: arrayfs_state where
  "bss_state =
     \<lparr>global_sb = \<lparr>mounted = 0, inode_bm = 0\<rparr>,
      global_inodes = (\<lambda>_. \<lparr>mode = 0, size_bytes = 0\<rparr>),
      global_data = (\<lambda>_. 0),
      disk_inode_bm = 0\<rparr>"

definition loaded_state :: arrayfs_state where
  "loaded_state = init_arrayfs bss_state"

section \<open>Runs\<close>

text \<open>Mount and unmount requests as events, and the results of a sequence of them.\<close>

datatype event = Mount vfs_env | Unmount

fun step :: "arrayfs_state \<Rightarrow> event \<Rightarrow> (errno + unit) \<times> arrayfs_state" where
  "step s (Mount env) = arrayfs_fill_super s env"
| "step s Unmount = (Inr (), arrayfs_umount s)"

fun run :: "arrayfs_state \<Rightarrow> event list \<Rightarrow> (errno + unit) list" where
  "run s [] = []"
| "run s (e # es) = (case step s e of (r, s') \<Rightarrow> r # run s' es)"

text \<open>\<open>n\<close> successive calls of an allocator, with their results in order.\<close>

fun alloc_seq ::
  "(arrayfs_state \<Rightarrow> nat option \<times> arrayfs_state) \<Rightarrow> nat \<Rightarrow> arrayfs_state
     \<Rightarrow> nat option list \<times> arrayfs_state" where
  "alloc_seq f 0 s = ([], s)"
| "alloc_seq f (Suc n) s =
     (case f s of (r, s') \<Rightarrow> (case alloc_seq f n s' of (rs, s'') \<Rightarrow> (r # rs, s'')))"

text \<open>A sequence of creates in one directory, with their results in order.\<close>

fun create_seq ::
  "arrayfs_state \<Rightarrow> nat \<Rightarrow> byte list list \<Rightarrow> umode_t \<Rightarrow> vfs_env
     \<Rightarrow> (errno + unit) list \<times> arrayfs_state" where
  "create_seq s dirino [] md env = ([], s)"
| "create_seq s dirino (name # names) md env =
     (case arrayfs_create s dirino name md env of
        (r, s') \<Rightarrow> (case create_seq s' dirino names md env of (rs, s'') \<Rightarrow> (r # rs, s'')))"

text \<open>The state in the middle of a create, after the bit of slot \<open>k\<close> has been set in a
  bitmap whose bits below \<open>k\<close> were the set ones.\<close>

definition slot_marked :: "arrayfs_state \<Rightarrow> nat \<Rightarrow> nat \<Rightarrow> arrayfs_state" where
  "slot_marked s dirino k =
     s\<lparr>global_data := store_ulong (global_data s) (dir_data_addr dirino) (mask (Suc k))\<rparr>"

section \<open>Concrete states\<close>

text \<open>
  The inputs of the examples: the file system after its first mount; its root with one
  file; 31 distinct names; the file system unmounted and mounted again after 31 files with
  these names were created in its root; the root after 33 more attempts to create a file;
  and a name of 40 characters with the root it was created in.
\<close>

definition mounted_state :: arrayfs_state where
  "mounted_state = snd (arrayfs_fill_super loaded_state vfs_ok)"

definition one_file_state :: arrayfs_state where
  "one_file_state = snd (arrayfs_create mounted_state 0 (bytes_of ''a.txt'') S_IFREG vfs_ok)"

definition many_names :: "byte list list" where
  "many_names = map (\<lambda>k. bytes_of ''f'' @ [of_nat (65 + k)]) [0..<31]"

definition remounted_full_state :: arrayfs_state where
  "remounted_full_state =
     snd (arrayfs_fill_super
            (arrayfs_umount (snd (create_seq mounted_state 0 many_names S_IFREG vfs_ok))) vfs_ok)"

definition full_dir_state :: arrayfs_state where
  "full_dir_state =
     snd (create_seq mounted_state 0 (many_names @ replicate 33 (bytes_of ''g'')) S_IFREG vfs_ok)"

definition long_name :: "byte list" where
  "long_name = bytes_of (replicate 40 CHR ''b'')"

definition long_name_state :: arrayfs_state where
  "long_name_state = snd (arrayfs_create mounted_state 0 long_name S_IFREG vfs_ok)"

section \<open>What lookup and iteration compute\<close>

text \<open>
  Equality of names as the specification words it: the bytes up to and including the first
  NUL of the name field, or all 32 bytes of the field if it holds no NUL, match.
\<close>

definition names_equal :: "(nat \<Rightarrow> byte) \<Rightarrow> (nat \<Rightarrow> byte) \<Rightarrow> bool" where
  "names_equal a b \<longleftrightarrow> (\<forall>i<32. (\<forall>j<i. a j \<noteq> 0) \<longrightarrow> a i = b i)"

definition name_field :: "arrayfs_state \<Rightarrow> nat \<Rightarrow> nat \<Rightarrow> nat \<Rightarrow> byte" where
  "name_field s dirino idx = (\<lambda>i. global_data s (entry_name_addr (dir_data_addr dirino) idx + i))"

text \<open>The first occupied slot, in ascending order, whose name equals the search name.\<close>

definition first_match :: "arrayfs_state \<Rightarrow> nat \<Rightarrow> byte list \<Rightarrow> nat option" where
  "first_match s dirino name =
     List.find (\<lambda>idx. bit (dir_bitmap s dirino) idx
                  \<and> names_equal (name_field s dirino idx) (cstr_nth name)) [0..<64]"

text \<open>The entries emitted for a list of slots when the cursor starts at \<open>off\<close> and moves to
  the slot index plus one after each emission.\<close>

fun dirents_from :: "arrayfs_state \<Rightarrow> nat \<Rightarrow> nat \<Rightarrow> nat list \<Rightarrow> dirent list" where
  "dirents_from s data off [] = []"
| "dirents_from s data off (idx # idxs) =
     dirent_at s data off idx # dirents_from s data (idx + 1) idxs"

text \<open>Iteration over a given list of occupied slots.\<close>

fun emit_slots ::
  "arrayfs_state \<Rightarrow> nat \<Rightarrow> (dirent list \<Rightarrow> dirent \<Rightarrow> bool) \<Rightarrow> nat list \<Rightarrow> dir_context
     \<Rightarrow> (errno + nat) \<times> dir_context" where
  "emit_slots s data actor [] ctx = (Inr 0, ctx\<lparr>pos := 64\<rparr>)"
| "emit_slots s data actor (idx # idxs) ctx =
     (if unat (load_u32 (global_data s) (entry_ino_addr data idx)) \<ge> ARRAYFS_NR_INODES
      then (Inr 1, ctx)
      else if actor (emitted ctx) (dirent_at s data (pos ctx) idx)
      then emit_slots s data actor idxs
             (ctx\<lparr>emitted := emitted ctx @ [dirent_at s data (pos ctx) idx], pos := idx + 1\<rparr>)
      else (Inr 1, ctx))"

section \<open>Bitmaps\<close>

lemma find_first_zero_bit_cases:
  "(find_first_zero_bit w n = n \<and> (\<forall>j<n. bit w j)) \<or>
   (find_first_zero_bit w n < n \<and> \<not> bit w (find_first_zero_bit w n)
      \<and> (\<forall>j < find_first_zero_bit w n. bit w j))"
proof (cases "List.find (\<lambda>i. \<not> bit w i) [0..<n]")
  case None
  then have "\<forall>j<n. bit w j"
    by (auto simp: find_None_iff)
  with None show ?thesis
    by (simp add: find_first_zero_bit_def)
next
  case (Some i)
  then obtain k where k: "k < n" "\<not> bit w ([0..<n] ! k)" "i = [0..<n] ! k"
      "\<forall>j<k. bit w ([0..<n] ! j)"
    by (auto simp: find_Some_iff)
  then have "i < n \<and> \<not> bit w i \<and> (\<forall>j<i. bit w j)"
    by simp
  with Some show ?thesis
    by (simp add: find_first_zero_bit_def)
qed

lemma find_first_zero_bit_le: "find_first_zero_bit w n \<le> n"
  using find_first_zero_bit_cases [of w n] by auto

lemma find_first_zero_bit_less:
  "find_first_zero_bit w n < n \<Longrightarrow>
   \<not> bit w (find_first_zero_bit w n) \<and> (\<forall>j < find_first_zero_bit w n. bit w j)"
  using find_first_zero_bit_cases [of w n] by auto

lemma find_first_zero_bit_full:
  "find_first_zero_bit w n = n \<longleftrightarrow> (\<forall>j<n. bit w j)"
  using find_first_zero_bit_cases [of w n] by auto

lemma find_first_zero_bit_eqI:
  assumes "k < n" "\<not> bit w k" "\<forall>j<k. bit w j"
  shows "find_first_zero_bit w n = k"
proof -
  have "find_first_zero_bit w n \<noteq> n"
    using assms find_first_zero_bit_full by blast
  with find_first_zero_bit_le [of w n] have lt: "find_first_zero_bit w n < n"
    by simp
  from find_first_zero_bit_less [OF lt] assms show ?thesis
    by (meson linorder_neqE_nat)
qed

lemma find_first_zero_bit_mask:
  "k \<le> n \<Longrightarrow> n \<le> 64 \<Longrightarrow> find_first_zero_bit (mask k) n = k"
proof (cases "k = n")
  case True
  assume "n \<le> 64"
  with True show ?thesis
    by (simp add: find_first_zero_bit_full bit_mask_iff)
next
  case False
  assume "k \<le> n" "n \<le> 64"
  with False show ?thesis
    by (intro find_first_zero_bit_eqI) (auto simp: bit_mask_iff)
qed

lemma set_bit_mask: "k < 64 \<Longrightarrow> set_bit k (mask k :: ulong) = mask (Suc k)"
  by (rule bit_word_eqI) (auto simp: bit_set_bit_iff bit_mask_iff)

lemma find_next_bit_cases:
  "(find_next_bit w n off = n \<and> (\<forall>j. off \<le> j \<and> j < n \<longrightarrow> \<not> bit w j)) \<or>
   (off \<le> find_next_bit w n off \<and> find_next_bit w n off < n \<and> bit w (find_next_bit w n off)
      \<and> (\<forall>j. off \<le> j \<and> j < find_next_bit w n off \<longrightarrow> \<not> bit w j))"
proof (cases "List.find (\<lambda>i. bit w i) [off..<n]")
  case None
  then have "\<forall>j. off \<le> j \<and> j < n \<longrightarrow> \<not> bit w j"
    by (auto simp: find_None_iff)
  with None show ?thesis
    by (simp add: find_next_bit_def)
next
  case (Some i)
  then obtain k where k: "k < n - off" "bit w ([off..<n] ! k)" "i = [off..<n] ! k"
      "\<forall>j<k. \<not> bit w ([off..<n] ! j)"
    by (auto simp: find_Some_iff)
  have i: "i = off + k"
    using k by simp
  have "\<not> bit w j" if "off \<le> j" "j < i" for j
  proof -
    have "j - off < k" using that i by arith
    with k(4) have "\<not> bit w ([off..<n] ! (j - off))" by blast
    moreover have "[off..<n] ! (j - off) = j"
      using that i k(1) by simp
    ultimately show ?thesis by simp
  qed
  with k i have "off \<le> i \<and> i < n \<and> bit w i \<and> (\<forall>j. off \<le> j \<and> j < i \<longrightarrow> \<not> bit w j)"
    by auto
  with Some show ?thesis
    by (simp add: find_next_bit_def)
qed

lemma find_upt_skip:
  "start \<le> idx \<Longrightarrow> \<forall>j. start \<le> j \<and> j < idx \<longrightarrow> \<not> P j \<Longrightarrow>
   List.find P [start..<n] = List.find P [idx..<n]"
proof (induction "idx - start" arbitrary: start)
  case 0
  then show ?case by simp
next
  case (Suc d)
  then have lt: "start < idx" by arith
  show ?case
  proof (cases "start < n")
    case True
    have np: "\<not> P start" using Suc.prems lt by simp
    have "List.find P [Suc start..<n] = List.find P [idx..<n]"
      using Suc.hyps Suc.prems lt by (intro Suc.hyps(1)) auto
    with True np show ?thesis
      by (simp add: upt_conv_Cons)
  next
    case False
    with lt show ?thesis by simp
  qed
qed

lemma filter_upt_skip:
  "start \<le> idx \<Longrightarrow> \<forall>j. start \<le> j \<and> j < idx \<longrightarrow> \<not> P j \<Longrightarrow>
   filter P [start..<n] = filter P [idx..<n]"
proof (induction "idx - start" arbitrary: start)
  case 0
  then show ?case by simp
next
  case (Suc d)
  then have lt: "start < idx" by arith
  show ?case
  proof (cases "start < n")
    case True
    have np: "\<not> P start" using Suc.prems lt by simp
    have "filter P [Suc start..<n] = filter P [idx..<n]"
      using Suc.hyps Suc.prems lt by (intro Suc.hyps(1)) auto
    with True np show ?thesis
      by (simp add: upt_conv_Cons)
  next
    case False
    with lt show ?thesis by simp
  qed
qed

lemma filter_upt_split:
  "start \<le> i \<Longrightarrow> i < n \<Longrightarrow> P i \<Longrightarrow>
   filter P [start..<n] = filter P [start..<i] @ i # filter P [Suc i..<n]"
proof -
  assume a: "start \<le> i" "i < n" "P i"
  have "[start..<n] = [start..<i] @ [i..<n]"
    using a by (metis le_Suc_ex less_imp_le_nat upt_add_eq_append)
  moreover have "[i..<n] = i # [Suc i..<n]"
    using a by (simp add: upt_conv_Cons)
  ultimately show ?thesis using a by simp
qed

section \<open>Memory\<close>

lemma bit_load_le:
  "bit (load_le m a n :: 'a::len word) k \<longleftrightarrow>
     k < LENGTH('a) \<and> k div 8 < n \<and> bit (m (a + k div 8)) (k mod 8)"
proof -
  have "bit (horner_sum uint (2 ^ LENGTH(8)) (load_bytes m a n)) k \<longleftrightarrow>
      k div LENGTH(8) < length (load_bytes m a n)
        \<and> bit (load_bytes m a n ! (k div LENGTH(8))) (k mod LENGTH(8))"
    by (rule bit_horner_sum_uint_exp_iff)
  then show ?thesis
    by (auto simp: load_le_def load_bytes_def bit_word_of_int_iff)
qed

lemma load_le_store_le:
  "LENGTH('a) \<le> 8 * n \<Longrightarrow> load_le (store_le m a n w) a n = (w :: 'a::len word)"
proof (rule bit_word_eqI)
  fix k assume le: "LENGTH('a) \<le> 8 * n" and k: "k < LENGTH('a)"
  then have d: "k div 8 < n" by auto
  have "8 * (k div 8) + k mod 8 = k" by simp
  with d k show "bit (load_le (store_le m a n w) a n :: 'a word) k = bit w k"
    by (simp add: bit_load_le store_le_def bit_ucast_iff bit_drop_bit_eq)
qed

lemma load_le_frame:
  "\<forall>i<n. m' (a + i) = m (a + i) \<Longrightarrow> (load_le m' a n :: 'a::len word) = load_le m a n"
proof -
  assume "\<forall>i<n. m' (a + i) = m (a + i)"
  then have "load_bytes m' a n = load_bytes m a n"
    by (auto simp: load_bytes_def)
  then show ?thesis
    by (simp add: load_le_def)
qed

lemma load_ulong_store_ulong: "load_ulong (store_ulong m a w) a = w"
  by (simp add: load_ulong_def store_ulong_def load_le_store_le)

lemma load_u32_store_u32: "load_u32 (store_u32 m a w) a = w"
  by (simp add: load_u32_def store_u32_def load_le_store_le)

lemma load_ulong_strcpy: "a + 8 \<le> dst \<Longrightarrow> load_ulong (strcpy m dst src) a = load_ulong m a"
  unfolding load_ulong_def by (rule load_le_frame) (simp add: strcpy_def)

lemma load_ulong_store_u32: "a + 8 \<le> b \<Longrightarrow> load_ulong (store_u32 m b w) a = load_ulong m a"
  unfolding load_ulong_def by (rule load_le_frame) (simp add: store_u32_def store_le_def)

section \<open>The allocators\<close>

lemma disk_inode_claim_mask:
  "disk_inode_bm s = mask k \<Longrightarrow> k < 32 \<Longrightarrow>
   disk_inode_claim s = (Some k, s\<lparr>disk_inode_bm := mask (Suc k)\<rparr>)"
  by (simp add: disk_inode_claim_def ARRAYFS_NR_INODES_def find_first_zero_bit_mask set_bit_mask)

lemma disk_inode_claim_full:
  "disk_inode_bm s = mask 32 \<Longrightarrow> disk_inode_claim s = (None, s)"
  by (simp add: disk_inode_claim_def ARRAYFS_NR_INODES_def find_first_zero_bit_mask)

lemma arrayfs_alloc_inode_mask:
  "inode_bm (global_sb s) = mask k \<Longrightarrow> k < 32 \<Longrightarrow>
   arrayfs_alloc_inode s = (Some k, s\<lparr>global_sb := (global_sb s)\<lparr>inode_bm := mask (Suc k)\<rparr>\<rparr>)"
  by (simp add: arrayfs_alloc_inode_def ARRAYFS_NR_INODES_def find_first_zero_bit_mask set_bit_mask)

lemma arrayfs_alloc_inode_full:
  "inode_bm (global_sb s) = mask 32 \<Longrightarrow> arrayfs_alloc_inode s = (None, s)"
  by (simp add: arrayfs_alloc_inode_def ARRAYFS_NR_INODES_def find_first_zero_bit_mask)

lemma alloc_seq_disk:
  "disk_inode_bm s = mask k \<Longrightarrow> k + n \<le> 32 \<Longrightarrow>
   alloc_seq disk_inode_claim n s = (map Some [k..<k + n], s\<lparr>disk_inode_bm := mask (k + n)\<rparr>)"
proof (induction n arbitrary: s k)
  case 0
  then show ?case by simp
next
  case (Suc n)
  have c: "disk_inode_claim s = (Some k, s\<lparr>disk_inode_bm := mask (Suc k)\<rparr>)"
    using Suc.prems by (intro disk_inode_claim_mask) simp_all
  have "alloc_seq disk_inode_claim n (s\<lparr>disk_inode_bm := mask (Suc k)\<rparr>)
      = (map Some [Suc k..<Suc k + n],
         s\<lparr>disk_inode_bm := mask (Suc k)\<rparr>\<lparr>disk_inode_bm := mask (Suc k + n)\<rparr>)"
    using Suc.prems by (intro Suc.IH) simp_all
  with c Suc.prems show ?case
    by (simp add: upt_conv_Cons)
qed

lemma alloc_seq_mem:
  "inode_bm (global_sb s) = mask k \<Longrightarrow> k + n \<le> 32 \<Longrightarrow>
   alloc_seq arrayfs_alloc_inode n s
     = (map Some [k..<k + n], s\<lparr>global_sb := (global_sb s)\<lparr>inode_bm := mask (k + n)\<rparr>\<rparr>)"
proof (induction n arbitrary: s k)
  case 0
  then show ?case by simp
next
  case (Suc n)
  let ?s1 = "s\<lparr>global_sb := (global_sb s)\<lparr>inode_bm := mask (Suc k)\<rparr>\<rparr>"
  have c: "arrayfs_alloc_inode s = (Some k, ?s1)"
    using Suc.prems by (intro arrayfs_alloc_inode_mask) simp_all
  have "alloc_seq arrayfs_alloc_inode n ?s1
      = (map Some [Suc k..<Suc k + n],
         ?s1\<lparr>global_sb := (global_sb ?s1)\<lparr>inode_bm := mask (Suc k + n)\<rparr>\<rparr>)"
    using Suc.prems by (intro Suc.IH) simp_all
  with c Suc.prems show ?case
    by (simp add: upt_conv_Cons)
qed

text \<open>
  C3.  Starting from an empty bitmap, 32 successive allocations return the indices
  0, 1, ..., 31 in this order, each being the first clear bit of the bitmap at the time of
  the call; they are pairwise distinct and lie in [0, 32).  The next allocation reports that
  no slot is free and leaves the state as it is.  This holds for the disk inode bitmap
  claimed inside \<open>arrayfs_new_inode\<close> and for the in-memory bitmap of
  \<open>arrayfs_alloc_inode\<close>.  When the disk inode bitmap has no free slot,
  \<open>arrayfs_new_inode\<close> returns the out-of-space condition.
\<close>

theorem allocator_sequence:
  assumes "disk_inode_bm s = 0" and "inode_bm (global_sb t) = 0"
  shows "(\<exists>s'. alloc_seq disk_inode_claim ARRAYFS_NR_INODES s
                 = (map Some [0..<ARRAYFS_NR_INODES], s')
             \<and> disk_inode_claim s' = (None, s')) \<and>
         (\<exists>t'. alloc_seq arrayfs_alloc_inode ARRAYFS_NR_INODES t
                 = (map Some [0..<ARRAYFS_NR_INODES], t')
             \<and> arrayfs_alloc_inode t' = (None, t')) \<and>
         (\<forall>k<ARRAYFS_NR_INODES.
             fst (disk_inode_claim (snd (alloc_seq disk_inode_claim k s)))
               = Some (find_first_zero_bit (disk_inode_bm (snd (alloc_seq disk_inode_claim k s)))
                        ARRAYFS_NR_INODES) \<and>
             fst (arrayfs_alloc_inode (snd (alloc_seq arrayfs_alloc_inode k t)))
               = Some (find_first_zero_bit
                        (inode_bm (global_sb (snd (alloc_seq arrayfs_alloc_inode k t))))
                        ARRAYFS_NR_INODES)) \<and>
         distinct [0..<ARRAYFS_NR_INODES] \<and> set [0..<ARRAYFS_NR_INODES] = {0..<ARRAYFS_NR_INODES} \<and>
         (\<forall>u md env pa u1. alloc_inode u env = (Some pa, u1) \<and> disk_inode_claim u1 = (None, u1)
             \<longrightarrow> arrayfs_new_inode u md env = (Inl ENOSPC, u1))"
proof -
  have s0: "disk_inode_bm s = mask 0" and t0: "inode_bm (global_sb t) = mask 0"
    using assms by simp_all
  have a: "alloc_seq disk_inode_claim n s = (map Some [0..<n], s\<lparr>disk_inode_bm := mask n\<rparr>)"
    if "n \<le> 32" for n
    using alloc_seq_disk [OF s0, of n] that by simp
  have b: "alloc_seq arrayfs_alloc_inode n t
      = (map Some [0..<n], t\<lparr>global_sb := (global_sb t)\<lparr>inode_bm := mask n\<rparr>\<rparr>)"
    if "n \<le> 32" for n
    using alloc_seq_mem [OF t0, of n] that by simp
  have 1: "disk_inode_claim (s\<lparr>disk_inode_bm := mask 32\<rparr>) = (None, s\<lparr>disk_inode_bm := mask 32\<rparr>)"
    by (rule disk_inode_claim_full) simp
  have 2: "arrayfs_alloc_inode (t\<lparr>global_sb := (global_sb t)\<lparr>inode_bm := mask 32\<rparr>\<rparr>)
      = (None, t\<lparr>global_sb := (global_sb t)\<lparr>inode_bm := mask 32\<rparr>\<rparr>)"
    by (rule arrayfs_alloc_inode_full) simp
  have 3: "fst (disk_inode_claim (snd (alloc_seq disk_inode_claim k s)))
               = Some (find_first_zero_bit (disk_inode_bm (snd (alloc_seq disk_inode_claim k s))) 32)"
    if "k < 32" for k
    using that a [of k]
    by (simp add: disk_inode_claim_def Let_def ARRAYFS_NR_INODES_def find_first_zero_bit_mask)
  have 4: "fst (arrayfs_alloc_inode (snd (alloc_seq arrayfs_alloc_inode k t)))
               = Some (find_first_zero_bit
                        (inode_bm (global_sb (snd (alloc_seq arrayfs_alloc_inode k t)))) 32)"
    if "k < 32" for k
    using that b [of k]
    by (simp add: arrayfs_alloc_inode_def Let_def ARRAYFS_NR_INODES_def find_first_zero_bit_mask)
  have 5: "arrayfs_new_inode u md env = (Inl ENOSPC, u1)"
    if "alloc_inode u env = (Some pa, u1)" "disk_inode_claim u1 = (None, u1)"
    for u md env pa u1
    using that by (simp add: arrayfs_new_inode_def)
  have "(\<exists>s'. alloc_seq disk_inode_claim 32 s = (map Some [0..<32], s')
             \<and> disk_inode_claim s' = (None, s')) \<and>
         (\<exists>t'. alloc_seq arrayfs_alloc_inode 32 t = (map Some [0..<32], t')
             \<and> arrayfs_alloc_inode t' = (None, t'))"
    using a [of 32] b [of 32] 1 2 by simp
  moreover have "distinct [0..<32::nat] \<and> set [0..<32::nat] = {0..<32}"
    by simp
  ultimately show ?thesis
    using 3 4 5 unfolding ARRAYFS_NR_INODES_def by blast
qed

theorem allocator_sequence_witness:
  "disk_inode_bm bss_state = 0 \<and> inode_bm (global_sb bss_state) = 0 \<and>
   fst (alloc_seq disk_inode_claim ARRAYFS_NR_INODES bss_state) = map Some [0..<ARRAYFS_NR_INODES] \<and>
   fst (alloc_seq arrayfs_alloc_inode ARRAYFS_NR_INODES bss_state)
     = map Some [0..<ARRAYFS_NR_INODES] \<and>
   fst (disk_inode_claim (snd (alloc_seq disk_inode_claim ARRAYFS_NR_INODES bss_state))) = None \<and>
   fst (arrayfs_alloc_inode (snd (alloc_seq arrayfs_alloc_inode ARRAYFS_NR_INODES bss_state)))
     = None"
proof -
  have h: "disk_inode_bm bss_state = 0" "inode_bm (global_sb bss_state) = 0"
    by (simp_all add: bss_state_def)
  from allocator_sequence [OF h] h show ?thesis
    by auto
qed

section \<open>The page store\<close>

lemma load_bytes_memcpy:
  "length src = n \<Longrightarrow> load_bytes (memcpy m a src n) a n = src"
  by (auto simp: load_bytes_def memcpy_def intro!: nth_equalityI)

text \<open>
  C5.  For an inode number below 32, a page index below 8 and a page of \<open>PAGE_SIZE\<close>
  bytes, writing the page and then reading the same page of the same inode returns the
  bytes written, both calls returning 0.  Reading at page index 8, one past the last valid
  index, returns 0 and hands the page back as it was.
\<close>

theorem page_round_trip:
  assumes "host_ino pg < ARRAYFS_NR_INODES" and "page_index pg < ARRAYFS_NR_PGS_PER_FILE"
    and "length (page_data pg) = PAGE_SIZE"
    and "host_ino q = host_ino pg" and "page_index q = page_index pg"
  shows "fst (arrayfs_write_datapage s pg) = 0 \<and>
         fst (arrayfs_read_datapage (fst (snd (arrayfs_write_datapage s pg))) q) = 0 \<and>
         page_data (snd (arrayfs_read_datapage (fst (snd (arrayfs_write_datapage s pg))) q))
           = page_data pg \<and>
         arrayfs_read_datapage s' (q\<lparr>page_index := ARRAYFS_NR_PGS_PER_FILE\<rparr>)
           = (0, q\<lparr>page_index := ARRAYFS_NR_PGS_PER_FILE\<rparr>)"
  using assms
  by (simp add: arrayfs_write_datapage_def arrayfs_read_datapage_def load_bytes_memcpy)

theorem page_round_trip_witness:
  "page_data (snd (arrayfs_read_datapage
      (fst (snd (arrayfs_write_datapage loaded_state
         \<lparr>host_ino = 5, page_index = 2, page_data = replicate PAGE_SIZE 0x42,
           PG_uptodate = True, PG_dirty = True\<rparr>)))
      \<lparr>host_ino = 5, page_index = 2, page_data = replicate PAGE_SIZE 0,
        PG_uptodate = False, PG_dirty = False\<rparr>))
   = replicate PAGE_SIZE 0x42 \<and>
   arrayfs_read_datapage loaded_state
      \<lparr>host_ino = 5, page_index = ARRAYFS_NR_PGS_PER_FILE, page_data = replicate PAGE_SIZE 0,
        PG_uptodate = False, PG_dirty = False\<rparr>
   = (0, \<lparr>host_ino = 5, page_index = ARRAYFS_NR_PGS_PER_FILE, page_data = replicate PAGE_SIZE 0,
           PG_uptodate = False, PG_dirty = False\<rparr>)"
  using page_round_trip [of
      "\<lparr>host_ino = 5, page_index = 2, page_data = replicate PAGE_SIZE 0x42,
         PG_uptodate = True, PG_dirty = True\<rparr>"
      "\<lparr>host_ino = 5, page_index = 2, page_data = replicate PAGE_SIZE 0,
         PG_uptodate = False, PG_dirty = False\<rparr>"
      loaded_state loaded_state]
  by (simp add: ARRAYFS_NR_INODES_def ARRAYFS_NR_PGS_PER_FILE_def)

text \<open>
  C6.  A page read or write whose page index is at least 8 or whose inode number is at
  least 32 returns 0, the success value.  The write changes nothing of the state, so no
  cell of the backing arrays is modified; the read copies nothing and hands the page back
  as it was, not marked up to date.
\<close>

theorem out_of_range_page_noop:
  "page_index pg \<ge> ARRAYFS_NR_PGS_PER_FILE \<or> host_ino pg \<ge> ARRAYFS_NR_INODES \<Longrightarrow>
   arrayfs_read_datapage s pg = (0, pg) \<and> arrayfs_write_datapage s pg = (0, s, pg)"
  by (auto simp: arrayfs_read_datapage_def arrayfs_write_datapage_def)

theorem out_of_range_page_noop_witness:
  "page_index \<lparr>host_ino = 3, page_index = 8, page_data = [], PG_uptodate = False, PG_dirty = True\<rparr>
     \<ge> ARRAYFS_NR_PGS_PER_FILE \<and>
   arrayfs_read_datapage loaded_state
     \<lparr>host_ino = 3, page_index = 8, page_data = [], PG_uptodate = False, PG_dirty = True\<rparr>
     = (0, \<lparr>host_ino = 3, page_index = 8, page_data = [], PG_uptodate = False, PG_dirty = True\<rparr>) \<and>
   arrayfs_write_datapage loaded_state
     \<lparr>host_ino = 3, page_index = 8, page_data = [], PG_uptodate = False, PG_dirty = True\<rparr>
     = (0, loaded_state,
        \<lparr>host_ino = 3, page_index = 8, page_data = [], PG_uptodate = False, PG_dirty = True\<rparr>)"
  using out_of_range_page_noop [of
      "\<lparr>host_ino = 3, page_index = 8, page_data = [], PG_uptodate = False, PG_dirty = True\<rparr>"
      loaded_state]
  by (simp add: ARRAYFS_NR_PGS_PER_FILE_def)

section \<open>The mount guard\<close>

lemma alloc_inode_mounted:
  "alloc_inode s env = (r, s') \<Longrightarrow> mounted (global_sb s') = mounted (global_sb s)"
  by (auto simp: alloc_inode_def arrayfs_alloc_inode_def Let_def split: if_splits)

lemma arrayfs_iget_mounted:
  "arrayfs_iget s ino env = (r, s') \<Longrightarrow> mounted (global_sb s') = mounted (global_sb s)"
  by (auto simp: arrayfs_iget_def split: if_splits prod.splits option.splits sum.splits
      dest: alloc_inode_mounted)

lemma fill_super_busy:
  "mounted (global_sb s) \<noteq> 0 \<Longrightarrow> arrayfs_fill_super s env = (Inl EBUSY, s)"
  by (simp add: arrayfs_fill_super_def)

lemma fill_super_ok_mounted:
  assumes "arrayfs_fill_super s env = (Inr (), s')"
  shows "mounted (global_sb s') = 1"
proof -
  from assms have m: "mounted (global_sb s) = 0"
    by (auto simp: arrayfs_fill_super_def split: if_splits)
  obtain r s3 where ig: "arrayfs_iget
      (s\<lparr>global_sb := (global_sb s)\<lparr>mounted := 1, inode_bm := 0\<rparr>\<rparr>) 0 env = (r, s3)"
    by (cases "arrayfs_iget (s\<lparr>global_sb := (global_sb s)\<lparr>mounted := 1, inode_bm := 0\<rparr>\<rparr>) 0 env")
  from arrayfs_iget_mounted [OF ig] have "mounted (global_sb s3) = 1"
    by simp
  moreover from assms m ig have "s' = s3"
    by (auto simp: arrayfs_fill_super_def Let_def split: sum.splits if_splits)
  ultimately show ?thesis by simp
qed

lemma fill_super_failed_unmounted:
  assumes "mounted (global_sb s) = 0" and "arrayfs_fill_super s env = (Inl e, s')"
  shows "mounted (global_sb s') = 0"
  using assms
  by (auto simp: arrayfs_fill_super_def Let_def split: sum.splits if_splits prod.splits)

lemma run_busy:
  "mounted (global_sb s) \<noteq> 0 \<Longrightarrow> j < length es \<Longrightarrow> \<forall>k<j. es ! k \<noteq> Unmount \<Longrightarrow>
   es ! j = Mount env \<Longrightarrow> run s es ! j = Inl EBUSY"
proof (induction es arbitrary: j)
  case Nil
  then show ?case by simp
next
  case (Cons e es)
  show ?case
  proof (cases j)
    case 0
    with Cons.prems show ?thesis
      by (simp add: fill_super_busy)
  next
    case (Suc j')
    with Cons.prems have "e \<noteq> Unmount"
      by auto
    then obtain env0 where e: "e = Mount env0"
      by (cases e) auto
    have st: "step s e = (Inl EBUSY, s)"
      using e Cons.prems(1) by (simp add: fill_super_busy)
    have "\<forall>k<j'. es ! k \<noteq> Unmount"
      using Cons.prems(3) Suc by auto
    with Cons.IH [of j'] Cons.prems Suc have "run s es ! j' = Inl EBUSY"
      by simp
    with st Suc show ?thesis by simp
  qed
qed

lemma run_two_mounts:
  "i < j \<Longrightarrow> j < length es \<Longrightarrow> es ! i = Mount ei \<Longrightarrow> es ! j = Mount ej \<Longrightarrow>
   run s es ! i = Inr () \<Longrightarrow> run s es ! j = Inr () \<Longrightarrow>
   \<exists>k. i < k \<and> k < j \<and> es ! k = Unmount"
proof (induction es arbitrary: s i j)
  case Nil
  then show ?case by simp
next
  case (Cons e es)
  obtain r s' where st: "step s e = (r, s')"
    by (cases "step s e")
  obtain j' where j: "j = Suc j'"
    using Cons.prems(1) by (cases j) auto
  show ?case
  proof (cases i)
    case 0
    with Cons.prems st have ok: "arrayfs_fill_super s ei = (Inr (), s')"
      by simp
    then have m: "mounted (global_sb s') \<noteq> 0"
      using fill_super_ok_mounted by fastforce
    have rj: "run s' es ! j' = Inr ()" and ej: "es ! j' = Mount ej" and lj: "j' < length es"
      using Cons.prems st j by simp_all
    have "\<not> (\<forall>k<j'. es ! k \<noteq> Unmount)"
      using run_busy [OF m lj _ ej] rj by auto
    then obtain k where "k < j'" "es ! k = Unmount"
      by auto
    then have "i < Suc k \<and> Suc k < j \<and> (e # es) ! Suc k = Unmount"
      using 0 j by simp
    then show ?thesis by blast
  next
    case (Suc i')
    with Cons.prems st j have "\<exists>k. i' < k \<and> k < j' \<and> es ! k = Unmount"
      by (intro Cons.IH [where i = i' and j = j' and s = s']) simp_all
    then obtain k where "i' < k" "k < j'" "es ! k = Unmount"
      by blast
    then have "i < Suc k \<and> Suc k < j \<and> (e # es) ! Suc k = Unmount"
      using Suc j by simp
    then show ?thesis by blast
  qed
qed

lemma mounted_state_mounted: "mounted (global_sb mounted_state) = 1"
  by code_simp

text \<open>
  C7.  In any state in which the mounted flag is set, a mount request returns the busy
  condition and leaves the whole state, the flag and the backing arrays included, exactly
  as it was.  In any sequence of mount and unmount requests, started in any state, two
  mount requests that both succeed have an unmount request between them: at most one
  successful mount is active at any time.
\<close>

theorem single_mount:
  "(mounted (global_sb s) \<noteq> 0 \<longrightarrow> arrayfs_fill_super s env = (Inl EBUSY, s)) \<and>
   (\<forall>i j ei ej. i < j \<and> j < length es \<and> es ! i = Mount ei \<and> es ! j = Mount ej \<and>
       run s0 es ! i = Inr () \<and> run s0 es ! j = Inr () \<longrightarrow>
       (\<exists>k. i < k \<and> k < j \<and> es ! k = Unmount))"
  using fill_super_busy run_two_mounts by blast

theorem single_mount_witness:
  "mounted (global_sb mounted_state) \<noteq> 0 \<and>
   arrayfs_fill_super mounted_state vfs_ok = (Inl EBUSY, mounted_state) \<and>
   run loaded_state [Mount vfs_ok, Mount vfs_ok, Unmount, Mount vfs_ok]
     = [Inr (), Inl EBUSY, Inr (), Inr ()] \<and>
   [Mount vfs_ok, Mount vfs_ok, Unmount, Mount vfs_ok] ! 2 = Unmount"
proof -
  have r: "run loaded_state [Mount vfs_ok, Mount vfs_ok, Unmount, Mount vfs_ok]
     = [Inr (), Inl EBUSY, Inr (), Inr ()]"
    by code_simp
  have m: "mounted (global_sb mounted_state) \<noteq> 0"
    by (simp add: mounted_state_mounted)
  from single_mount [of mounted_state vfs_ok "[Mount vfs_ok, Mount vfs_ok, Unmount, Mount vfs_ok]"
      loaded_state] m r
  show ?thesis
    by simp
qed

text \<open>
  C8.  When the file system is not mounted and the mount fails because the root inode
  handle cannot be obtained (\<open>arrayfs_iget\<close> returns an error) or the root dentry cannot be
  made, the mount request returns an error other than busy, the mounted flag is 0
  afterwards, and no following mount request is rejected as busy.
\<close>

theorem failed_mount_rolls_back:
  assumes "mounted (global_sb s) = 0"
    and "isl (fst (arrayfs_iget (s\<lparr>global_sb := (global_sb s)\<lparr>mounted := 1, inode_bm := 0\<rparr>\<rparr>) 0 env))
         \<or> \<not> d_make_root_ok env"
  shows "isl (fst (arrayfs_fill_super s env)) \<and>
         fst (arrayfs_fill_super s env) \<noteq> Inl EBUSY \<and>
         mounted (global_sb (snd (arrayfs_fill_super s env))) = 0 \<and>
         (\<forall>env'. fst (arrayfs_fill_super (snd (arrayfs_fill_super s env)) env') \<noteq> Inl EBUSY)"
proof -
  let ?s2 = "s\<lparr>global_sb := (global_sb s)\<lparr>mounted := 1, inode_bm := 0\<rparr>\<rparr>"
  obtain r s3 where ig: "arrayfs_iget ?s2 0 env = (r, s3)"
    by (cases "arrayfs_iget ?s2 0 env")
  obtain res s' where fs: "arrayfs_fill_super s env = (res, s')"
    by (cases "arrayfs_fill_super s env")
  have res: "isl res \<and> res \<noteq> Inl EBUSY"
    using assms ig fs
    by (auto simp: arrayfs_fill_super_def arrayfs_iget_def alloc_inode_def
        arrayfs_read_inode_def ARRAYFS_NR_INODES_def Let_def
        split: sum.splits if_splits prod.splits option.splits)
  then obtain e where e: "res = Inl e"
    by (cases res) auto
  have m': "mounted (global_sb s') = 0"
    using fill_super_failed_unmounted [OF assms(1)] fs e by simp
  have "fst (arrayfs_fill_super s' env') \<noteq> Inl EBUSY" for env'
    using m'
    by (auto simp: arrayfs_fill_super_def arrayfs_iget_def alloc_inode_def
        arrayfs_read_inode_def Let_def
        split: sum.splits prod.splits option.splits if_splits)
  with res m' fs show ?thesis
    by simp
qed

theorem failed_mount_rolls_back_witness:
  "mounted (global_sb loaded_state) = 0 \<and>
   \<not> d_make_root_ok (vfs_ok\<lparr>d_make_root_ok := False\<rparr>) \<and>
   fst (arrayfs_fill_super loaded_state (vfs_ok\<lparr>d_make_root_ok := False\<rparr>)) = Inl ENOMEM \<and>
   mounted (global_sb (snd (arrayfs_fill_super loaded_state (vfs_ok\<lparr>d_make_root_ok := False\<rparr>)))) = 0 \<and>
   fst (arrayfs_fill_super
          (snd (arrayfs_fill_super loaded_state (vfs_ok\<lparr>d_make_root_ok := False\<rparr>))) vfs_ok)
     = Inr ()"
proof -
  have m: "mounted (global_sb loaded_state) = 0"
    by code_simp
  have d: "\<not> d_make_root_ok (vfs_ok\<lparr>d_make_root_ok := False\<rparr>)"
    by simp
  have r: "fst (arrayfs_fill_super loaded_state (vfs_ok\<lparr>d_make_root_ok := False\<rparr>)) = Inl ENOMEM"
    by code_simp
  have r2: "fst (arrayfs_fill_super
          (snd (arrayfs_fill_super loaded_state (vfs_ok\<lparr>d_make_root_ok := False\<rparr>))) vfs_ok)
     = Inr ()"
    by code_simp
  from failed_mount_rolls_back [of loaded_state "vfs_ok\<lparr>d_make_root_ok := False\<rparr>"] m d r r2
  show ?thesis
    by simp
qed

text \<open>
  C9.  Unmounting sets the mounted flag to 0 and changes nothing else: the in-memory inode
  bitmap, the inode records, the disk allocation bitmap and every byte of the data array
  are the same, hence so are every directory's bitmap and entries and the content of every
  page.  A following mount request is not rejected as busy, and whatever its outcome it
  leaves inode records, disk bitmap and data array as they were before the unmount.
\<close>

theorem unmount_only_clears_mounted:
  "mounted (global_sb (arrayfs_umount s)) = 0 \<and>
   inode_bm (global_sb (arrayfs_umount s)) = inode_bm (global_sb s) \<and>
   global_inodes (arrayfs_umount s) = global_inodes s \<and>
   disk_inode_bm (arrayfs_umount s) = disk_inode_bm s \<and>
   global_data (arrayfs_umount s) = global_data s \<and>
   (\<forall>d. dir_bitmap (arrayfs_umount s) d = dir_bitmap s d) \<and>
   (\<forall>d i. entry_name (arrayfs_umount s) d i = entry_name s d i
        \<and> entry_ino (arrayfs_umount s) d i = entry_ino s d i) \<and>
   (\<forall>pg. arrayfs_read_datapage (arrayfs_umount s) pg = arrayfs_read_datapage s pg) \<and>
   (\<forall>env. fst (arrayfs_fill_super (arrayfs_umount s) env) \<noteq> Inl EBUSY
        \<and> global_inodes (snd (arrayfs_fill_super (arrayfs_umount s) env)) = global_inodes s
        \<and> disk_inode_bm (snd (arrayfs_fill_super (arrayfs_umount s) env)) = disk_inode_bm s
        \<and> global_data (snd (arrayfs_fill_super (arrayfs_umount s) env)) = global_data s)"
  by (simp add: arrayfs_umount_def arrayfs_put_super_def dir_bitmap_def entry_name_def
      entry_ino_def arrayfs_read_datapage_def arrayfs_fill_super_def arrayfs_iget_def
      alloc_inode_def arrayfs_alloc_inode_def arrayfs_read_inode_def Let_def
      split: prod.splits option.splits sum.splits)

theorem unmount_only_clears_mounted_witness:
  "mounted (global_sb mounted_state) = 1 \<and>
   mounted (global_sb (arrayfs_umount mounted_state)) = 0 \<and>
   global_data (arrayfs_umount mounted_state) = global_data mounted_state \<and>
   global_inodes (arrayfs_umount mounted_state) = global_inodes mounted_state \<and>
   disk_inode_bm (arrayfs_umount mounted_state) = disk_inode_bm mounted_state"
  using unmount_only_clears_mounted [of mounted_state] mounted_state_mounted
  by simp

section \<open>Lookup\<close>

lemma str_same_loop_spec:
  "str_same_loop a b i \<longleftrightarrow>
   (\<forall>k. i \<le> k \<and> k < 32 \<longrightarrow> (\<forall>j. i \<le> j \<and> j < k \<longrightarrow> a j \<noteq> 0) \<longrightarrow> a k = b k)"
proof (induction a b i rule: str_same_loop.induct)
  case (1 a b i)
  let ?R = "\<lambda>i. \<forall>k. i \<le> k \<and> k < 32 \<longrightarrow> (\<forall>j. i \<le> j \<and> j < k \<longrightarrow> a j \<noteq> 0) \<longrightarrow> a k = b k"
  show ?case
  proof (cases "i < 32")
    case False
    then have "str_same_loop a b i"
      by (subst str_same_loop.simps) simp
    moreover have "?R i"
      using False by auto
    ultimately show ?thesis by blast
  next
    case lt: True
    show ?thesis
    proof (cases "a i = b i")
      case False
      with lt have "\<not> str_same_loop a b i"
        by (subst str_same_loop.simps) simp
      moreover have "\<not> ?R i"
      proof
        assume r: "?R i"
        have "\<forall>j. i \<le> j \<and> j < i \<longrightarrow> a j \<noteq> 0"
          by auto
        with r lt have "a i = b i"
          by blast
        with False show False by simp
      qed
      ultimately show ?thesis by blast
    next
      case eq: True
      show ?thesis
      proof (cases "a i = 0")
        case True
        with lt eq have "str_same_loop a b i"
          by (subst str_same_loop.simps) simp
        moreover have "a k = b k"
          if "i \<le> k" "k < 32" "\<forall>j. i \<le> j \<and> j < k \<longrightarrow> a j \<noteq> 0" for k
        proof (cases "k = i")
          case True
          with eq show ?thesis by simp
        next
          case False
          with that(1) have "i \<le> i \<and> i < k" by arith
          with that(3) have "a i \<noteq> 0" by blast
          with True show ?thesis by simp
        qed
        ultimately show ?thesis by blast
      next
        case nz: False
        have "str_same_loop a b i = str_same_loop a b (Suc i)"
          using lt eq nz by (subst str_same_loop.simps) simp
        also have "\<dots> \<longleftrightarrow> ?R (Suc i)"
          using "1.IH" lt eq nz by simp
        also have "\<dots> \<longleftrightarrow> ?R i"
        proof
          assume L: "?R (Suc i)"
          show "?R i"
          proof (intro allI impI)
            fix k assume k: "i \<le> k \<and> k < 32" and z: "\<forall>j. i \<le> j \<and> j < k \<longrightarrow> a j \<noteq> 0"
            show "a k = b k"
            proof (cases "k = i")
              case True
              with eq show ?thesis by simp
            next
              case False
              with k have "Suc i \<le> k \<and> k < 32" by arith
              moreover have "\<forall>j. Suc i \<le> j \<and> j < k \<longrightarrow> a j \<noteq> 0"
                using z by auto
              ultimately show ?thesis using L by blast
            qed
          qed
        next
          assume R: "?R i"
          show "?R (Suc i)"
          proof (intro allI impI)
            fix k assume k: "Suc i \<le> k \<and> k < 32" and z: "\<forall>j. Suc i \<le> j \<and> j < k \<longrightarrow> a j \<noteq> 0"
            have "\<forall>j. i \<le> j \<and> j < k \<longrightarrow> a j \<noteq> 0"
            proof (intro allI impI)
              fix j assume j: "i \<le> j \<and> j < k"
              show "a j \<noteq> 0"
              proof (cases "j = i")
                case True
                with nz show ?thesis by simp
              next
                case False
                with j have "Suc i \<le> j \<and> j < k" by arith
                with z show ?thesis by blast
              qed
            qed
            moreover have "i \<le> k \<and> k < 32" using k by arith
            ultimately show "a k = b k" using R by blast
          qed
        qed
        finally show ?thesis .
      qed
    qed
  qed
qed

lemma str_same_names_equal: "str_same a b \<longleftrightarrow> names_equal a b"
  unfolding str_same_def names_equal_def str_same_loop_spec
  by simp

lemma names_equal_code [code]: "names_equal a b = str_same a b"
  by (simp add: str_same_names_equal)

lemma lookup_loop_find:
  "lookup_loop s dd name env start =
     (case List.find (\<lambda>idx. bit (load_ulong (global_data s) dd) idx
                  \<and> str_same (\<lambda>i. global_data s (entry_name_addr dd idx + i)) (cstr_nth name))
             [start..<64] of
        None \<Rightarrow> (Inr None, s)
      | Some idx \<Rightarrow>
          (case arrayfs_iget s (unat (load_u32 (global_data s) (entry_ino_addr dd idx))) env of
             (Inl e, s') \<Rightarrow> (Inl EIO, s')
           | (Inr child_inode, s') \<Rightarrow> (Inr (Some child_inode), s')))"
proof (induction s dd name env start rule: lookup_loop.induct)
  case (1 s dd name env start)
  let ?w = "load_ulong (global_data s) dd"
  let ?P = "\<lambda>idx. bit ?w idx
      \<and> str_same (\<lambda>i. global_data s (entry_name_addr dd idx + i)) (cstr_nth name)"
  let ?idx = "find_next_bit ?w 64 start"
  from find_next_bit_cases [of ?w 64 start]
  consider (none) "?idx = 64" "\<forall>j. start \<le> j \<and> j < 64 \<longrightarrow> \<not> bit ?w j"
    | (some) "start \<le> ?idx" "?idx < 64" "bit ?w ?idx"
        "\<forall>j. start \<le> j \<and> j < ?idx \<longrightarrow> \<not> bit ?w j"
    by blast
  then show ?case
  proof cases
    case none
    then have "List.find ?P [start..<64] = None"
      by (auto simp: find_None_iff)
    moreover have "lookup_loop s dd name env start = (Inr None, s)"
      using none(1) by (subst lookup_loop.simps) simp
    ultimately show ?thesis by simp
  next
    case some
    have skip: "List.find ?P [start..<64] = List.find ?P [?idx..<64]"
      using some by (intro find_upt_skip) auto
    have cons: "[?idx..<64] = ?idx # [Suc ?idx..<64]"
      using some(2) by (simp add: upt_conv_Cons)
    show ?thesis
    proof (cases "str_same (\<lambda>i. global_data s (entry_name_addr dd ?idx + i)) (cstr_nth name)")
      case True
      then have "List.find ?P [start..<64] = Some ?idx"
        using skip cons some(3) by simp
      moreover have "lookup_loop s dd name env start =
          (case arrayfs_iget s (unat (load_u32 (global_data s) (entry_ino_addr dd ?idx))) env of
             (Inl e, s') \<Rightarrow> (Inl EIO, s')
           | (Inr child_inode, s') \<Rightarrow> (Inr (Some child_inode), s'))"
        using some(2) True by (subst lookup_loop.simps) (simp add: Let_def)
      ultimately show ?thesis by simp
    next
      case False
      then have "List.find ?P [start..<64] = List.find ?P [Suc ?idx..<64]"
        using skip cons by simp
      moreover have "lookup_loop s dd name env start = lookup_loop s dd name env (Suc ?idx)"
        using some(2) False by (subst lookup_loop.simps) (simp add: Let_def)
      moreover have "lookup_loop s dd name env (Suc ?idx) =
          (case List.find ?P [Suc ?idx..<64] of
             None \<Rightarrow> (Inr None, s)
           | Some idx \<Rightarrow>
             (case arrayfs_iget s (unat (load_u32 (global_data s) (entry_ino_addr dd idx))) env of
                (Inl e, s') \<Rightarrow> (Inl EIO, s')
              | (Inr child_inode, s') \<Rightarrow> (Inr (Some child_inode), s')))"
        using some(2) False by (intro "1.IH") simp_all
      ultimately show ?thesis by simp
    qed
  qed
qed

lemma first_match_cases:
  "(first_match s d name = None \<and>
      (\<forall>i<64. bit (dir_bitmap s d) i \<longrightarrow> \<not> names_equal (name_field s d i) (cstr_nth name))) \<or>
   (\<exists>idx. first_match s d name = Some idx \<and> idx < 64 \<and> bit (dir_bitmap s d) idx \<and>
      names_equal (name_field s d idx) (cstr_nth name) \<and>
      (\<forall>j<idx. bit (dir_bitmap s d) j \<longrightarrow> \<not> names_equal (name_field s d j) (cstr_nth name)))"
proof (cases "first_match s d name")
  case None
  then show ?thesis
    by (auto simp: first_match_def find_None_iff)
next
  case (Some idx)
  then obtain k where k: "k < 64" "idx = [0..<64] ! k"
    "bit (dir_bitmap s d) ([0..<64] ! k) \<and> names_equal (name_field s d ([0..<64] ! k)) (cstr_nth name)"
    "\<forall>j<k. \<not> (bit (dir_bitmap s d) ([0..<64] ! j)
        \<and> names_equal (name_field s d ([0..<64] ! j)) (cstr_nth name))"
    unfolding first_match_def find_Some_iff by auto
  have idx: "idx = k" using k(1,2) by simp
  have "\<not> (bit (dir_bitmap s d) j \<and> names_equal (name_field s d j) (cstr_nth name))"
    if "j < idx" for j
  proof -
    from that idx k(1) have "j < k" "[0..<64] ! j = j" by simp_all
    with k(4) show ?thesis by metis
  qed
  moreover have "idx < 64 \<and> bit (dir_bitmap s d) idx
      \<and> names_equal (name_field s d idx) (cstr_nth name)"
    using k idx by simp
  ultimately show ?thesis using Some by blast
qed

lemma arrayfs_iget_handle:
  "arrayfs_iget s ino env = (Inr h, s') \<Longrightarrow> h = ino"
  by (auto simp: arrayfs_iget_def split: if_splits prod.splits option.splits sum.splits)

lemma arrayfs_lookup_scan:
  assumes "dir_ino < ARRAYFS_NR_INODES"
  shows "arrayfs_lookup s dir_ino name env =
     (case first_match s dir_ino name of
        None \<Rightarrow> (Inr None, s)
      | Some idx \<Rightarrow>
          (case arrayfs_iget s (entry_ino s dir_ino idx) env of
             (Inl e, s') \<Rightarrow> (Inl EIO, s')
           | (Inr child_inode, s') \<Rightarrow> (Inr (Some (entry_ino s dir_ino idx)), s')))"
proof -
  have fm: "first_match s dir_ino name =
      List.find (\<lambda>idx. bit (load_ulong (global_data s) (dir_data_addr dir_ino)) idx
          \<and> str_same (\<lambda>i. global_data s (entry_name_addr (dir_data_addr dir_ino) idx + i))
                (cstr_nth name)) [0..<64]"
    by (simp add: first_match_def dir_bitmap_def name_field_def str_same_names_equal)
  have "arrayfs_lookup s dir_ino name env = lookup_loop s (dir_data_addr dir_ino) name env 0"
    using assms by (simp add: arrayfs_lookup_def)
  also have "\<dots> =
     (case first_match s dir_ino name of
        None \<Rightarrow> (Inr None, s)
      | Some idx \<Rightarrow>
          (case arrayfs_iget s (entry_ino s dir_ino idx) env of
             (Inl e, s') \<Rightarrow> (Inl EIO, s')
           | (Inr child_inode, s') \<Rightarrow> (Inr (Some child_inode), s')))"
    unfolding lookup_loop_find fm entry_ino_def by (rule refl)
  also have "\<dots> =
     (case first_match s dir_ino name of
        None \<Rightarrow> (Inr None, s)
      | Some idx \<Rightarrow>
          (case arrayfs_iget s (entry_ino s dir_ino idx) env of
             (Inl e, s') \<Rightarrow> (Inl EIO, s')
           | (Inr child_inode, s') \<Rightarrow> (Inr (Some (entry_ino s dir_ino idx)), s')))"
    by (auto split: option.splits prod.splits sum.splits dest: arrayfs_iget_handle)
  finally show ?thesis .
qed

lemma one_file_lookup_hit:
  "fst (arrayfs_lookup one_file_state 0 (bytes_of ''a.txt'') vfs_ok) = Inr (Some 1)"
  by code_simp

lemma one_file_first_match: "first_match one_file_state 0 (bytes_of ''a.txt'') = Some 0"
  by code_simp

lemma one_file_first_miss: "first_match one_file_state 0 (bytes_of ''missing'') = None"
  by code_simp

lemma one_file_entry_ino: "entry_ino one_file_state 0 0 = 1"
  by code_simp

text \<open>
  C4 (as amended).  For a directory with inode number below 32 and any search name, lookup
  scans the set bits of the directory's bitmap in ascending slot order and settles on the
  first slot whose name field equals the search name under the bounded NUL-terminated
  comparison.  If the inode handle of that slot's child inode number can be obtained, lookup
  returns that child inode number; if \<open>arrayfs_iget\<close> fails, lookup reports an I/O error
  instead.  If no occupied slot matches, lookup reports not-found and the state is unchanged.
\<close>

theorem lookup_first_match:
  assumes "dir_ino < ARRAYFS_NR_INODES"
  shows "arrayfs_lookup s dir_ino name env =
     (case first_match s dir_ino name of
        None \<Rightarrow> (Inr None, s)
      | Some idx \<Rightarrow>
          (case arrayfs_iget s (entry_ino s dir_ino idx) env of
             (Inl e, s') \<Rightarrow> (Inl EIO, s')
           | (Inr child_inode, s') \<Rightarrow> (Inr (Some (entry_ino s dir_ino idx)), s')))
    \<and> ((first_match s dir_ino name = None \<and>
          (\<forall>i<64. bit (dir_bitmap s dir_ino) i
              \<longrightarrow> \<not> names_equal (name_field s dir_ino i) (cstr_nth name))) \<or>
       (\<exists>idx. first_match s dir_ino name = Some idx \<and> idx < 64 \<and> bit (dir_bitmap s dir_ino) idx \<and>
          names_equal (name_field s dir_ino idx) (cstr_nth name) \<and>
          (\<forall>j<idx. bit (dir_bitmap s dir_ino) j
              \<longrightarrow> \<not> names_equal (name_field s dir_ino j) (cstr_nth name))))"
  using arrayfs_lookup_scan [OF assms, of s name env] first_match_cases [of s dir_ino name]
  by blast

theorem lookup_first_match_witness:
  "(0::nat) < ARRAYFS_NR_INODES \<and>
   first_match one_file_state 0 (bytes_of ''a.txt'') = Some 0 \<and>
   entry_ino one_file_state 0 0 = 1 \<and>
   fst (arrayfs_lookup one_file_state 0 (bytes_of ''a.txt'') vfs_ok) = Inr (Some 1) \<and>
   arrayfs_lookup one_file_state 0 (bytes_of ''missing'') vfs_ok = (Inr None, one_file_state)"
proof -
  have h: "(0::nat) < ARRAYFS_NR_INODES"
    by (simp add: ARRAYFS_NR_INODES_def)
  from lookup_first_match [OF h, of one_file_state "bytes_of ''missing''" vfs_ok]
  have "arrayfs_lookup one_file_state 0 (bytes_of ''missing'') vfs_ok = (Inr None, one_file_state)"
    by (simp add: one_file_first_miss)
  with h one_file_first_match one_file_entry_ino one_file_lookup_hit show ?thesis
    by simp
qed

section \<open>Iteration\<close>

lemma readdir_loop_emit_slots:
  "readdir_loop s data actor ctx =
     emit_slots s data actor (filter (bit (load_ulong (global_data s) data)) [pos ctx..<64]) ctx"
proof (induction s data actor ctx rule: readdir_loop.induct)
  case (1 s data actor ctx)
  let ?w = "load_ulong (global_data s) data"
  let ?idx = "find_next_bit ?w 64 (pos ctx)"
  from find_next_bit_cases [of ?w 64 "pos ctx"]
  consider (none) "?idx = 64" "\<forall>j. pos ctx \<le> j \<and> j < 64 \<longrightarrow> \<not> bit ?w j"
    | (some) "pos ctx \<le> ?idx" "?idx < 64" "bit ?w ?idx"
        "\<forall>j. pos ctx \<le> j \<and> j < ?idx \<longrightarrow> \<not> bit ?w j"
    by blast
  then show ?case
  proof cases
    case none
    then have "filter (bit ?w) [pos ctx..<64] = []"
      by (auto simp: filter_empty_conv)
    moreover have "readdir_loop s data actor ctx = (Inr 0, ctx\<lparr>pos := 64\<rparr>)"
      using none(1) by (subst readdir_loop.simps) simp
    ultimately show ?thesis by simp
  next
    case some
    have "filter (bit ?w) [pos ctx..<64] = filter (bit ?w) [?idx..<64]"
      using some by (intro filter_upt_skip) auto
    moreover have "[?idx..<64] = ?idx # [Suc ?idx..<64]"
      using some(2) by (simp add: upt_conv_Cons)
    ultimately have fl: "filter (bit ?w) [pos ctx..<64] = ?idx # filter (bit ?w) [Suc ?idx..<64]"
      using some(3) by simp
    let ?child = "unat (load_u32 (global_data s) (entry_ino_addr data ?idx))"
    show ?thesis
    proof (cases "?child \<ge> ARRAYFS_NR_INODES")
      case True
      then have "readdir_loop s data actor ctx = (Inr 1, ctx)"
        using some(2) by (subst readdir_loop.simps) (simp add: Let_def)
      with True fl show ?thesis by simp
    next
      case good: False
      let ?e = "dirent_at s data (pos ctx) ?idx"
      show ?thesis
      proof (cases "actor (emitted ctx) ?e")
        case False
        then have "readdir_loop s data actor ctx = (Inr 1, ctx)"
          using some(2) good
          by (subst readdir_loop.simps) (simp add: Let_def dir_emit_def dirent_at_def)
        with False good fl show ?thesis by simp
      next
        case True
        let ?ctx' = "ctx\<lparr>emitted := emitted ctx @ [?e], pos := ?idx + 1\<rparr>"
        have de: "dir_emit actor ctx
            (load_bytes (global_data s) (entry_name_addr data ?idx)
               (strlen_upto (global_data s) (entry_name_addr data ?idx) (gd_addr ARRAYFS_NR_INODES 0 0)))
            (strlen_upto (global_data s) (entry_name_addr data ?idx) (gd_addr ARRAYFS_NR_INODES 0 0))
            ?child
            (if S_ISREG (mode (global_inodes s ?child)) then DT_REG else DT_DIR)
          = (True, ctx\<lparr>emitted := emitted ctx @ [?e]\<rparr>)"
          using True by (simp add: dir_emit_def dirent_at_def Let_def)
        have step: "readdir_loop s data actor ctx = readdir_loop s data actor ?ctx'"
          using some(2) good de by (subst readdir_loop.simps) (simp add: Let_def)
        have "readdir_loop s data actor ?ctx' =
            emit_slots s data actor (filter (bit ?w) [pos ?ctx'..<64]) ?ctx'"
          using "1.IH" [OF refl _ refl _ refl refl refl refl] some(2) good de
          by (simp add: Let_def)
        with step True good fl show ?thesis by simp
      qed
    qed
  qed
qed

lemma emit_slots_all_good:
  "\<forall>x \<in> set idxs. unat (load_u32 (global_data s) (entry_ino_addr data x)) < ARRAYFS_NR_INODES \<Longrightarrow>
   \<forall>es e. actor es e \<Longrightarrow>
   emit_slots s data actor idxs ctx =
     (Inr 0, ctx\<lparr>emitted := emitted ctx @ dirents_from s data (pos ctx) idxs, pos := 64\<rparr>)"
  by (induction idxs arbitrary: ctx) auto

lemma emit_slots_bad:
  "unat (load_u32 (global_data s) (entry_ino_addr data i)) \<ge> ARRAYFS_NR_INODES \<Longrightarrow>
   fst (emit_slots s data actor (A @ i # B) ctx) = Inr 1 \<and>
   (\<exists>n. emitted (snd (emit_slots s data actor (A @ i # B) ctx))
          = emitted ctx @ dirents_from s data (pos ctx) (take n A))"
proof (induction A arbitrary: ctx)
  case Nil
  then show ?case by simp
next
  case (Cons x xs)
  let ?e = "dirent_at s data (pos ctx) x"
  let ?ctx' = "ctx\<lparr>emitted := emitted ctx @ [?e], pos := x + 1\<rparr>"
  show ?case
  proof (cases "unat (load_u32 (global_data s) (entry_ino_addr data x)) < ARRAYFS_NR_INODES
      \<and> actor (emitted ctx) ?e")
    case False
    then have "emit_slots s data actor ((x # xs) @ i # B) ctx = (Inr 1, ctx)"
      by auto
    moreover have "emitted ctx = emitted ctx @ dirents_from s data (pos ctx) (take 0 (x # xs))"
      by simp
    ultimately show ?thesis
      by (metis fst_conv snd_conv)
  next
    case True
    then have st: "emit_slots s data actor ((x # xs) @ i # B) ctx
        = emit_slots s data actor (xs @ i # B) ?ctx'"
      by simp
    from Cons.IH [OF Cons.prems, of ?ctx'] obtain n where
      f: "fst (emit_slots s data actor (xs @ i # B) ?ctx') = Inr 1" and
      e: "emitted (snd (emit_slots s data actor (xs @ i # B) ?ctx'))
          = emitted ?ctx' @ dirents_from s data (pos ?ctx') (take n xs)"
      by blast
    have "emitted ?ctx' @ dirents_from s data (pos ?ctx') (take n xs)
        = emitted ctx @ dirents_from s data (pos ctx) (take (Suc n) (x # xs))"
      by simp
    with st f e show ?thesis
      by metis
  qed
qed

lemma one_file_bitmap: "dir_bitmap one_file_state 0 = 1"
  by code_simp

text \<open>
  C10 (as amended).  For a directory with inode number below 32: if an occupied slot at or
  after the cursor holds a child inode number of 32 or more, iteration returns 1 and what
  it has emitted are entries of occupied slots before that slot, in ascending order, so
  neither that entry nor a later one is emitted.  If all occupied slots hold child inode
  numbers below 32 and the caller's actor accepts every entry offered, iteration from
  position 0 emits every occupied slot in ascending order, each entry carrying the cursor
  of the moment (0 for the first, the previous slot index plus one afterwards), and returns
  0 with the cursor at 64.
\<close>

theorem readdir_iteration:
  assumes "ino < ARRAYFS_NR_INODES"
  shows "(\<forall>i<64. bit (dir_bitmap s ino) i \<and> entry_ino s ino i \<ge> ARRAYFS_NR_INODES \<and> pos ctx \<le> i \<longrightarrow>
            fst (arrayfs_readdir s ino actor ctx) = Inr 1 \<and>
            (\<exists>n. emitted (snd (arrayfs_readdir s ino actor ctx))
                   = emitted ctx @ dirents_from s (dir_data_addr ino) (pos ctx)
                       (take n (filter (bit (dir_bitmap s ino)) [pos ctx..<i])))) \<and>
         ((\<forall>i<64. bit (dir_bitmap s ino) i \<longrightarrow> entry_ino s ino i < ARRAYFS_NR_INODES) \<and>
          (\<forall>es e. actor es e) \<and> pos ctx = 0 \<longrightarrow>
            arrayfs_readdir s ino actor ctx =
              (Inr 0, ctx\<lparr>emitted := emitted ctx @ dirents_from s (dir_data_addr ino) 0
                                      (filter (bit (dir_bitmap s ino)) [0..<64]),
                          pos := 64\<rparr>))"
proof -
  let ?data = "dir_data_addr ino"
  let ?w = "dir_bitmap s ino"
  have rd: "arrayfs_readdir s ino actor ctx
      = emit_slots s ?data actor (filter (bit ?w) [pos ctx..<64]) ctx"
    using assms by (simp add: arrayfs_readdir_def readdir_loop_emit_slots dir_bitmap_def)
  have bad: "fst (arrayfs_readdir s ino actor ctx) = Inr 1 \<and>
      (\<exists>n. emitted (snd (arrayfs_readdir s ino actor ctx))
          = emitted ctx @ dirents_from s ?data (pos ctx) (take n (filter (bit ?w) [pos ctx..<i])))"
    if "i < 64" "bit ?w i" "entry_ino s ino i \<ge> ARRAYFS_NR_INODES" "pos ctx \<le> i" for i
  proof -
    have "filter (bit ?w) [pos ctx..<64]
        = filter (bit ?w) [pos ctx..<i] @ i # filter (bit ?w) [Suc i..<64]"
      using that by (intro filter_upt_split) simp_all
    moreover have "unat (load_u32 (global_data s) (entry_ino_addr ?data i)) \<ge> ARRAYFS_NR_INODES"
      using that(3) by (simp add: entry_ino_def)
    ultimately show ?thesis
      using emit_slots_bad [of s ?data i actor "filter (bit ?w) [pos ctx..<i]"
          "filter (bit ?w) [Suc i..<64]" ctx] rd
      by simp
  qed
  have good: "arrayfs_readdir s ino actor ctx =
      (Inr 0, ctx\<lparr>emitted := emitted ctx @ dirents_from s ?data 0 (filter (bit ?w) [0..<64]),
                  pos := 64\<rparr>)"
    if g: "\<forall>i<64. bit ?w i \<longrightarrow> entry_ino s ino i < ARRAYFS_NR_INODES"
      and a: "\<forall>es e. actor es e" and p: "pos ctx = 0"
  proof -
    have "\<forall>x \<in> set (filter (bit ?w) [0..<64]).
        unat (load_u32 (global_data s) (entry_ino_addr ?data x)) < ARRAYFS_NR_INODES"
      using g by (auto simp: entry_ino_def)
    from emit_slots_all_good [OF this a, of ctx] rd p show ?thesis
      by simp
  qed
  from bad good show ?thesis
    by blast
qed

theorem readdir_iteration_witness:
  "(0::nat) < ARRAYFS_NR_INODES \<and>
   dir_bitmap one_file_state 0 = 1 \<and> entry_ino one_file_state 0 0 = 1 \<and>
   arrayfs_readdir one_file_state 0 (\<lambda>es e. True) \<lparr>pos = 0, emitted = []\<rparr> =
     (Inr 0, \<lparr>pos = 64,
              emitted = dirents_from one_file_state (dir_data_addr 0) 0
                          (filter (bit (dir_bitmap one_file_state 0)) [0..<64])\<rparr>)"
proof -
  have h: "(0::nat) < ARRAYFS_NR_INODES"
    by (simp add: ARRAYFS_NR_INODES_def)
  have g: "\<forall>i<64. bit (dir_bitmap one_file_state 0) i \<longrightarrow> entry_ino one_file_state 0 i < ARRAYFS_NR_INODES"
  proof (intro allI impI)
    fix i :: nat
    assume "i < 64" and "bit (dir_bitmap one_file_state 0) i"
    then have "i = 0"
      by (simp add: one_file_bitmap bit_1_iff)
    then show "entry_ino one_file_state 0 i < ARRAYFS_NR_INODES"
      by (simp add: one_file_entry_ino ARRAYFS_NR_INODES_def)
  qed
  from readdir_iteration [OF h, of one_file_state "\<lparr>pos = 0, emitted = []\<rparr>" "\<lambda>es e. True"] g
  have "arrayfs_readdir one_file_state 0 (\<lambda>es e. True) \<lparr>pos = 0, emitted = []\<rparr> =
     (Inr 0, \<lparr>pos = 64,
              emitted = dirents_from one_file_state (dir_data_addr 0) 0
                          (filter (bit (dir_bitmap one_file_state 0)) [0..<64])\<rparr>)"
    by simp
  with h one_file_bitmap one_file_entry_ino show ?thesis
    by simp
qed

text \<open>The claim as first stated fails when the actor declines an entry: the only occupied
  slot holds inode 1, nothing is emitted and iteration returns 1 with the cursor at 0.\<close>

theorem readdir_declined_counterexample:
  "dir_bitmap one_file_state 0 = 1 \<and> entry_ino one_file_state 0 0 = 1 \<and>
   arrayfs_readdir one_file_state 0 (\<lambda>es e. False) \<lparr>pos = 0, emitted = []\<rparr>
     = (Inr 1, \<lparr>pos = 0, emitted = []\<rparr>)"
proof -
  have "arrayfs_readdir one_file_state 0 (\<lambda>es e. False) \<lparr>pos = 0, emitted = []\<rparr>
     = (Inr 1, \<lparr>pos = 0, emitted = []\<rparr>)"
    by code_simp
  with one_file_bitmap one_file_entry_ino show ?thesis
    by simp
qed

section \<open>Creating entries\<close>

lemma alloc_inode_mask:
  "inode_bm (global_sb s) = mask j \<Longrightarrow> j < 32 \<Longrightarrow> kernel_alloc_ok env \<Longrightarrow>
   alloc_inode s env = (Some j, s\<lparr>global_sb := (global_sb s)\<lparr>inode_bm := mask (Suc j)\<rparr>\<rparr>)"
  by (simp add: alloc_inode_def arrayfs_alloc_inode_mask)

lemma alloc_inode_full:
  "inode_bm (global_sb s) = mask 32 \<Longrightarrow> alloc_inode s env = (None, s)"
  by (simp add: alloc_inode_def arrayfs_alloc_inode_full)

lemma arrayfs_new_inode_mask:
  assumes "inode_bm (global_sb s) = mask j" "j < 32" "disk_inode_bm s = mask i" "i < 32"
    "kernel_alloc_ok env" "insert_inode_ok env"
  shows "arrayfs_new_inode s md env =
     (Inr i, s\<lparr>global_sb := (global_sb s)\<lparr>inode_bm := mask (Suc j)\<rparr>,
               disk_inode_bm := mask (Suc i),
               global_inodes := (global_inodes s)(i := \<lparr>mode = md, size_bytes = 0\<rparr>)\<rparr>)"
proof -
  let ?s1 = "s\<lparr>global_sb := (global_sb s)\<lparr>inode_bm := mask (Suc j)\<rparr>\<rparr>"
  have a: "alloc_inode s env = (Some j, ?s1)"
    using assms by (intro alloc_inode_mask)
  have c: "disk_inode_claim ?s1 = (Some i, ?s1\<lparr>disk_inode_bm := mask (Suc i)\<rparr>)"
    using assms by (intro disk_inode_claim_mask) simp_all
  show ?thesis
    using assms(6) by (simp add: arrayfs_new_inode_def a c)
qed

lemma arrayfs_new_inode_no_memory:
  "inode_bm (global_sb s) = mask 32 \<Longrightarrow> arrayfs_new_inode s md env = (Inl ENOMEM, s)"
  by (simp add: arrayfs_new_inode_def alloc_inode_full)

lemma arrayfs_new_inode_no_space:
  assumes "inode_bm (global_sb s) = mask j" "j < 32" "disk_inode_bm s = mask 32"
    "kernel_alloc_ok env"
  shows "arrayfs_new_inode s md env =
     (Inl ENOSPC, s\<lparr>global_sb := (global_sb s)\<lparr>inode_bm := mask (Suc j)\<rparr>\<rparr>)"
proof -
  let ?s1 = "s\<lparr>global_sb := (global_sb s)\<lparr>inode_bm := mask (Suc j)\<rparr>\<rparr>"
  have a: "alloc_inode s env = (Some j, ?s1)"
    using assms by (intro alloc_inode_mask)
  have c: "disk_inode_claim ?s1 = (None, ?s1)"
    using assms by (intro disk_inode_claim_full) simp
  show ?thesis
    by (simp add: arrayfs_new_inode_def a c)
qed

lemma arrayfs_create_marks:
  assumes "dirino < ARRAYFS_NR_INODES" "dir_bitmap s dirino = mask k" "k < 64"
  shows "arrayfs_create s dirino name md env =
     (case arrayfs_new_inode (slot_marked s dirino k) md env of
        (Inl e, s2) \<Rightarrow> (Inl e, s2)
      | (Inr ino, s2) \<Rightarrow>
          (Inr (), s2\<lparr>global_data :=
             store_u32 (strcpy (global_data s2) (entry_name_addr (dir_data_addr dirino) k) name)
               (entry_ino_addr (dir_data_addr dirino) k) (of_nat ino)\<rparr>))"
proof -
  have f: "find_first_zero_bit (load_ulong (global_data s) (dir_data_addr dirino)) 64 = k"
    using assms by (simp add: dir_bitmap_def [symmetric] find_first_zero_bit_mask)
  have m: "set_bit k (load_ulong (global_data s) (dir_data_addr dirino)) = mask (Suc k)"
    using assms by (simp add: dir_bitmap_def [symmetric] set_bit_mask)
  show ?thesis
    using assms(1,3)
    by (simp add: arrayfs_create_def Let_def f m slot_marked_def split: prod.splits sum.splits)
qed

lemma dir_bitmap_slot_marked: "dir_bitmap (slot_marked s dirino k) dirino = mask (Suc k)"
  by (simp add: dir_bitmap_def slot_marked_def load_ulong_store_ulong)

lemma arrayfs_create_ok:
  assumes "dirino < ARRAYFS_NR_INODES" "dir_bitmap s dirino = mask k" "k < 64"
    "inode_bm (global_sb s) = mask j" "j < 32" "disk_inode_bm s = mask i" "i < 32"
    "kernel_alloc_ok env" "insert_inode_ok env"
  shows "\<exists>s'. arrayfs_create s dirino name md env = (Inr (), s') \<and>
           dir_bitmap s' dirino = mask (Suc k) \<and>
           inode_bm (global_sb s') = mask (Suc j) \<and>
           disk_inode_bm s' = mask (Suc i) \<and>
           mounted (global_sb s') = mounted (global_sb s)"
proof -
  let ?dd = "dir_data_addr dirino"
  let ?s1 = "slot_marked s dirino k"
  let ?s2 = "?s1\<lparr>global_sb := (global_sb ?s1)\<lparr>inode_bm := mask (Suc j)\<rparr>,
               disk_inode_bm := mask (Suc i),
               global_inodes := (global_inodes ?s1)(i := \<lparr>mode = md, size_bytes = 0\<rparr>)\<rparr>"
  let ?s' = "?s2\<lparr>global_data :=
             store_u32 (strcpy (global_data ?s2) (entry_name_addr ?dd k) name)
               (entry_ino_addr ?dd k) (of_nat i)\<rparr>"
  have n: "arrayfs_new_inode ?s1 md env = (Inr i, ?s2)"
    using assms by (intro arrayfs_new_inode_mask) (simp_all add: slot_marked_def)
  have c: "arrayfs_create s dirino name md env = (Inr (), ?s')"
    using arrayfs_create_marks [OF assms(1-3), of name md env] n by simp
  have "load_ulong (global_data ?s') ?dd = load_ulong (global_data ?s1) ?dd"
    by (simp add: load_ulong_store_u32 load_ulong_strcpy entry_ino_addr_def entry_name_addr_def)
  then have b: "dir_bitmap ?s' dirino = mask (Suc k)"
    using dir_bitmap_slot_marked [of s dirino k] by (simp add: dir_bitmap_def)
  have "inode_bm (global_sb ?s') = mask (Suc j) \<and> disk_inode_bm ?s' = mask (Suc i)
      \<and> mounted (global_sb ?s') = mounted (global_sb s)"
    by (simp add: slot_marked_def)
  with c b show ?thesis
    by blast
qed

lemma arrayfs_create_no_memory:
  assumes "dirino < ARRAYFS_NR_INODES" "dir_bitmap s dirino = mask k" "k < 64"
    "inode_bm (global_sb s) = mask 32"
  shows "arrayfs_create s dirino name md env = (Inl ENOMEM, slot_marked s dirino k)"
proof -
  have "arrayfs_new_inode (slot_marked s dirino k) md env = (Inl ENOMEM, slot_marked s dirino k)"
    using assms(4) by (intro arrayfs_new_inode_no_memory) (simp add: slot_marked_def)
  with arrayfs_create_marks [OF assms(1-3), of name md env] show ?thesis
    by simp
qed

lemma arrayfs_create_no_space:
  assumes "dirino < ARRAYFS_NR_INODES" "dir_bitmap s dirino = mask k" "k < 64"
    "inode_bm (global_sb s) = mask j" "j < 32" "disk_inode_bm s = mask 32" "kernel_alloc_ok env"
  shows "fst (arrayfs_create s dirino name md env) = Inl ENOSPC \<and>
         dir_bitmap (snd (arrayfs_create s dirino name md env)) dirino = mask (Suc k)"
proof -
  let ?s1 = "slot_marked s dirino k"
  have "arrayfs_new_inode ?s1 md env =
      (Inl ENOSPC, ?s1\<lparr>global_sb := (global_sb ?s1)\<lparr>inode_bm := mask (Suc j)\<rparr>\<rparr>)"
    using assms by (intro arrayfs_new_inode_no_space) (simp_all add: slot_marked_def)
  with arrayfs_create_marks [OF assms(1-3), of name md env]
  have "arrayfs_create s dirino name md env =
      (Inl ENOSPC, ?s1\<lparr>global_sb := (global_sb ?s1)\<lparr>inode_bm := mask (Suc j)\<rparr>\<rparr>)"
    by simp
  moreover have "dir_bitmap (?s1\<lparr>global_sb := (global_sb ?s1)\<lparr>inode_bm := mask (Suc j)\<rparr>\<rparr>) dirino
      = mask (Suc k)"
    using dir_bitmap_slot_marked [of s dirino k] by (simp add: dir_bitmap_def)
  ultimately show ?thesis
    by simp
qed

lemma create_seq_ok:
  assumes "dirino < ARRAYFS_NR_INODES" "kernel_alloc_ok env" "insert_inode_ok env"
  shows "dir_bitmap s dirino = mask k \<Longrightarrow> inode_bm (global_sb s) = mask j \<Longrightarrow>
     disk_inode_bm s = mask i \<Longrightarrow>
     k + length names \<le> 64 \<Longrightarrow> j + length names \<le> 32 \<Longrightarrow> i + length names \<le> 32 \<Longrightarrow>
     fst (create_seq s dirino names md env) = replicate (length names) (Inr ()) \<and>
     dir_bitmap (snd (create_seq s dirino names md env)) dirino = mask (k + length names) \<and>
     inode_bm (global_sb (snd (create_seq s dirino names md env))) = mask (j + length names) \<and>
     disk_inode_bm (snd (create_seq s dirino names md env)) = mask (i + length names) \<and>
     mounted (global_sb (snd (create_seq s dirino names md env))) = mounted (global_sb s)"
proof (induction names arbitrary: s k j i)
  case Nil
  then show ?case by simp
next
  case (Cons name names)
  from Cons.prems have "k < 64" "j < 32" "i < 32" by simp_all
  with arrayfs_create_ok [OF assms(1) Cons.prems(1) _ Cons.prems(2) _ Cons.prems(3) _ assms(2,3),
      of name md]
  obtain s' where s': "arrayfs_create s dirino name md env = (Inr (), s')"
      "dir_bitmap s' dirino = mask (Suc k)" "inode_bm (global_sb s') = mask (Suc j)"
      "disk_inode_bm s' = mask (Suc i)" "mounted (global_sb s') = mounted (global_sb s)"
    by blast
  have "fst (create_seq s' dirino names md env) = replicate (length names) (Inr ()) \<and>
     dir_bitmap (snd (create_seq s' dirino names md env)) dirino = mask (Suc k + length names) \<and>
     inode_bm (global_sb (snd (create_seq s' dirino names md env))) = mask (Suc j + length names) \<and>
     disk_inode_bm (snd (create_seq s' dirino names md env)) = mask (Suc i + length names) \<and>
     mounted (global_sb (snd (create_seq s' dirino names md env))) = mounted (global_sb s')"
    using Cons.prems s' by (intro Cons.IH) simp_all
  with s' show ?case
    by (simp add: case_prod_unfold)
qed

lemma mounted_state_bitmaps:
  "dir_bitmap mounted_state 0 = mask 0 \<and> inode_bm (global_sb mounted_state) = mask 1 \<and>
   disk_inode_bm mounted_state = mask 1"
proof -
  have "dir_bitmap mounted_state 0 = 0" "inode_bm (global_sb mounted_state) = 1"
    "disk_inode_bm mounted_state = 1"
    by code_simp+
  then show ?thesis by simp
qed

lemma arrayfs_create_dir_full:
  assumes "dirino < ARRAYFS_NR_INODES" "find_first_zero_bit (dir_bitmap s dirino) 64 = 64"
  shows "arrayfs_create s dirino name md env = (Inl ENOSPC, s)"
    and "arrayfs_mkdir s dirino name md env = (Inl ENOSPC, s)"
  using assms by (simp_all add: arrayfs_create_def arrayfs_mkdir_def dir_bitmap_def Let_def)

lemma mount_ok:
  assumes "mounted (global_sb s) = 0"
  shows "arrayfs_fill_super s vfs_ok =
     (Inr (), s\<lparr>global_sb := (global_sb s)\<lparr>mounted := 1, inode_bm := mask 1\<rparr>\<rparr>)"
proof -
  let ?s2 = "s\<lparr>global_sb := (global_sb s)\<lparr>mounted := 1, inode_bm := 0\<rparr>\<rparr>"
  have "inode_bm (global_sb ?s2) = mask 0" by simp
  from alloc_inode_mask [OF this, of vfs_ok]
  have "alloc_inode ?s2 vfs_ok = (Some 0, ?s2\<lparr>global_sb := (global_sb ?s2)\<lparr>inode_bm := mask 1\<rparr>\<rparr>)"
    by (simp add: vfs_ok_def)
  then show ?thesis
    using assms
    by (simp add: arrayfs_fill_super_def arrayfs_iget_def arrayfs_read_inode_def vfs_ok_def
        ARRAYFS_NR_INODES_def Let_def)
qed

lemma remount:
  assumes "mounted (global_sb s) \<noteq> 0"
  shows "arrayfs_fill_super (arrayfs_umount s) vfs_ok =
     (Inr (), s\<lparr>global_sb := (global_sb s)\<lparr>mounted := 1, inode_bm := mask 1\<rparr>\<rparr>)"
proof -
  have "mounted (global_sb (arrayfs_umount s)) = 0"
    by (simp add: arrayfs_umount_def arrayfs_put_super_def)
  from mount_ok [OF this] show ?thesis
    by (simp add: arrayfs_umount_def arrayfs_put_super_def)
qed

lemma mask_31: "(mask 31 :: ulong) = 0x7FFFFFFF"
  by (simp add: mask_eq_exp_minus_1)

lemma mask_32: "(mask 32 :: ulong) = 0xFFFFFFFF"
  by (simp add: mask_eq_exp_minus_1)

lemma many_names_length: "length many_names = 31"
  by (simp add: many_names_def)

lemma create_seq_append:
  "create_seq s d (xs @ ys) md env =
     (case create_seq s d xs md env of
        (rs, s') \<Rightarrow> (case create_seq s' d ys md env of (rs', s'') \<Rightarrow> (rs @ rs', s'')))"
  by (induction xs arbitrary: s) (auto split: prod.splits)

lemma create_seq_no_memory:
  assumes "dirino < ARRAYFS_NR_INODES"
  shows "dir_bitmap s dirino = mask k \<Longrightarrow> inode_bm (global_sb s) = mask 32 \<Longrightarrow>
     k + length names \<le> 64 \<Longrightarrow>
     fst (create_seq s dirino names md env) = replicate (length names) (Inl ENOMEM) \<and>
     dir_bitmap (snd (create_seq s dirino names md env)) dirino = mask (k + length names)"
proof (induction names arbitrary: s k)
  case Nil
  then show ?case by simp
next
  case (Cons name names)
  from Cons.prems have k: "k < 64" by simp
  let ?s' = "slot_marked s dirino k"
  have c: "arrayfs_create s dirino name md env = (Inl ENOMEM, ?s')"
    using assms Cons.prems(1) k Cons.prems(2) by (rule arrayfs_create_no_memory)
  have "fst (create_seq ?s' dirino names md env) = replicate (length names) (Inl ENOMEM) \<and>
     dir_bitmap (snd (create_seq ?s' dirino names md env)) dirino = mask (Suc k + length names)"
    using Cons.prems
    by (intro Cons.IH) (simp_all add: dir_bitmap_slot_marked, simp add: slot_marked_def)
  with c show ?case
    by (simp add: case_prod_unfold)
qed

lemma full_dir_state_full: "find_first_zero_bit (dir_bitmap full_dir_state 0) 64 = 64"
proof -
  let ?t = "snd (create_seq mounted_state 0 many_names S_IFREG vfs_ok)"
  have z: "(0::nat) < ARRAYFS_NR_INODES"
    by (simp add: ARRAYFS_NR_INODES_def)
  have env: "kernel_alloc_ok vfs_ok" "insert_inode_ok vfs_ok"
    by (simp_all add: vfs_ok_def)
  from mounted_state_bitmaps
  have b: "dir_bitmap mounted_state 0 = mask 0" "inode_bm (global_sb mounted_state) = mask 1"
    "disk_inode_bm mounted_state = mask 1"
    by simp_all
  from create_seq_ok [OF z env b, of many_names S_IFREG] many_names_length
  have r: "dir_bitmap ?t 0 = mask 31" "inode_bm (global_sb ?t) = mask 32"
    by simp_all
  from create_seq_no_memory [OF z r, of "replicate 33 (bytes_of ''g'')" S_IFREG vfs_ok]
  have "dir_bitmap (snd (create_seq ?t 0 (replicate 33 (bytes_of ''g'')) S_IFREG vfs_ok)) 0
      = mask 64"
    by simp
  moreover have "full_dir_state = snd (create_seq ?t 0 (replicate 33 (bytes_of ''g'')) S_IFREG vfs_ok)"
    by (simp add: full_dir_state_def create_seq_append case_prod_unfold)
  ultimately show ?thesis
    by (simp add: find_first_zero_bit_mask)
qed

lemma mounted_state_data: "global_data mounted_state = (\<lambda>x. 0)"
proof -
  have "mounted (global_sb loaded_state) = 0"
    by (simp add: loaded_state_def init_arrayfs_def Let_def)
  from mount_ok [OF this] have "global_data mounted_state = global_data loaded_state"
    by (simp add: mounted_state_def)
  also have "\<dots> = (\<lambda>x. 0)"
    by (rule ext)
      (simp add: loaded_state_def init_arrayfs_def mkfs_arrayfs_def bss_state_def Let_def
        store_ulong_def store_le_def)
  finally show ?thesis .
qed

lemma long_name_bytes: "long_name = replicate 40 0x62"
  by (simp add: long_name_def bytes_of_def)

lemma cstr_nth_long_name: "cstr_nth long_name i = (if i < 40 then 0x62 else 0)"
  by (simp add: cstr_nth_def c_str_def long_name_bytes)

lemma long_name_state_data:
  "global_data long_name_state =
     store_u32 (strcpy (store_ulong (\<lambda>x. 0) 0 (mask 1)) 8 long_name) 40 1"
proof -
  have z: "(0::nat) < ARRAYFS_NR_INODES"
    by (simp add: ARRAYFS_NR_INODES_def)
  have env: "kernel_alloc_ok vfs_ok" "insert_inode_ok vfs_ok"
    by (simp_all add: vfs_ok_def)
  from mounted_state_bitmaps
  have b: "dir_bitmap mounted_state 0 = mask 0" "inode_bm (global_sb mounted_state) = mask 1"
    "disk_inode_bm mounted_state = mask 1"
    by simp_all
  let ?s1 = "slot_marked mounted_state 0 0"
  have "arrayfs_new_inode ?s1 S_IFREG vfs_ok =
     (Inr 1, ?s1\<lparr>global_sb := (global_sb ?s1)\<lparr>inode_bm := mask (Suc 1)\<rparr>,
               disk_inode_bm := mask (Suc 1),
               global_inodes := (global_inodes ?s1)(1 := \<lparr>mode = S_IFREG, size_bytes = 0\<rparr>)\<rparr>)"
    using b env by (intro arrayfs_new_inode_mask) (simp_all add: slot_marked_def)
  with arrayfs_create_marks [OF z b(1), of long_name S_IFREG vfs_ok]
  show ?thesis
    by (simp add: long_name_state_def slot_marked_def mounted_state_data dir_data_addr_def
        gd_addr_def entry_name_addr_def entry_ino_addr_def)
qed

lemma arrayfs_new_inode_data:
  "arrayfs_new_inode s md env = (r, s') \<Longrightarrow> global_data s' = global_data s"
  by (auto simp: arrayfs_new_inode_def alloc_inode_def arrayfs_alloc_inode_def
      disk_inode_claim_def Let_def split: prod.splits option.splits if_splits)

lemma remounted_full_state_bitmaps:
  "dir_bitmap remounted_full_state 0 = mask 31 \<and>
   inode_bm (global_sb remounted_full_state) = mask 1 \<and>
   disk_inode_bm remounted_full_state = mask 32"
proof -
  let ?t = "snd (create_seq mounted_state 0 many_names S_IFREG vfs_ok)"
  have z: "(0::nat) < ARRAYFS_NR_INODES"
    by (simp add: ARRAYFS_NR_INODES_def)
  have env: "kernel_alloc_ok vfs_ok" "insert_inode_ok vfs_ok"
    by (simp_all add: vfs_ok_def)
  from mounted_state_bitmaps
  have b: "dir_bitmap mounted_state 0 = mask 0" "inode_bm (global_sb mounted_state) = mask 1"
    "disk_inode_bm mounted_state = mask 1"
    by simp_all
  from create_seq_ok [OF z env b, of many_names S_IFREG] many_names_length
  have r: "dir_bitmap ?t 0 = mask 31" "disk_inode_bm ?t = mask 32"
    "mounted (global_sb ?t) = mounted (global_sb mounted_state)"
    by simp_all
  have "mounted (global_sb ?t) \<noteq> 0"
    using r(3) mounted_state_mounted by simp
  from remount [OF this]
  have rm: "remounted_full_state = ?t\<lparr>global_sb := (global_sb ?t)\<lparr>mounted := 1, inode_bm := mask 1\<rparr>\<rparr>"
    by (simp add: remounted_full_state_def)
  show ?thesis
    using r by (simp add: rm dir_bitmap_def)
qed

lemma remounted_create_no_space:
  "fst (arrayfs_create remounted_full_state 0 (bytes_of ''g'') S_IFREG vfs_ok) = Inl ENOSPC \<and>
   dir_bitmap (snd (arrayfs_create remounted_full_state 0 (bytes_of ''g'') S_IFREG vfs_ok)) 0
     = mask 32"
proof -
  have z: "(0::nat) < ARRAYFS_NR_INODES"
    by (simp add: ARRAYFS_NR_INODES_def)
  have env: "kernel_alloc_ok vfs_ok"
    by (simp add: vfs_ok_def)
  from remounted_full_state_bitmaps
  have rb: "dir_bitmap remounted_full_state 0 = mask 31"
    "inode_bm (global_sb remounted_full_state) = mask 1"
    "disk_inode_bm remounted_full_state = mask 32"
    by simp_all
  from arrayfs_create_no_space [OF z rb(1) _ rb(2) _ rb(3) env, of "bytes_of ''g''" S_IFREG]
  show ?thesis
    by simp
qed

text \<open>
  C1.  The claim is that the name stored by create is bounded to the 32-byte name field.
  The code copies the name with \<open>strcpy\<close>, whatever its length.  Creating a file with a
  name of 40 characters in the empty root succeeds; afterwards the 32 bytes of the name
  field of slot 0 are all name characters, with no NUL among them, and the name field of
  slot 1, all zero before, begins with the name's characters 36 to 39.
\<close>

theorem long_name_overruns_field:
  "length long_name = 40 \<and> 0 \<notin> set long_name \<and>
   fst (arrayfs_create mounted_state 0 long_name S_IFREG vfs_ok) = Inr () \<and>
   entry_name long_name_state 0 0 = replicate 32 0x62 \<and>
   entry_name mounted_state 0 1 = replicate 32 0 \<and>
   entry_name long_name_state 0 1 = [0x62, 0x62, 0x62, 0x62] @ replicate 28 0"
proof -
  have z: "(0::nat) < ARRAYFS_NR_INODES"
    by (simp add: ARRAYFS_NR_INODES_def)
  have env: "kernel_alloc_ok vfs_ok" "insert_inode_ok vfs_ok"
    by (simp_all add: vfs_ok_def)
  from mounted_state_bitmaps
  have b: "dir_bitmap mounted_state 0 = mask 0" "inode_bm (global_sb mounted_state) = mask 1"
    "disk_inode_bm mounted_state = mask 1"
    by simp_all
  from arrayfs_create_ok [OF z b(1) _ b(2) _ b(3) _ env, of long_name S_IFREG]
  have ok: "fst (arrayfs_create mounted_state 0 long_name S_IFREG vfs_ok) = Inr ()"
    by auto
  have a0: "entry_name_addr (dir_data_addr 0) 0 = 8" and a1: "entry_name_addr (dir_data_addr 0) 1 = 44"
    by (simp_all add: entry_name_addr_def dir_data_addr_def gd_addr_def)
  have len: "length (c_str long_name) = 40"
    by (simp add: c_str_def long_name_bytes)
  have f0: "entry_name long_name_state 0 0 = replicate 32 0x62"
    unfolding entry_name_def a0 load_bytes_def long_name_state_data
    by (rule nth_equalityI)
      (simp_all add: store_u32_def store_le_def strcpy_def cstr_nth_long_name len)
  have m1: "entry_name mounted_state 0 1 = replicate 32 0"
    unfolding entry_name_def a1 load_bytes_def mounted_state_data
    by (rule nth_equalityI) simp_all
  have f1: "entry_name long_name_state 0 1 = [0x62, 0x62, 0x62, 0x62] @ replicate 28 0"
    unfolding entry_name_def a1 load_bytes_def long_name_state_data
  proof (rule nth_equalityI)
    show "length (map (\<lambda>k. store_u32 (strcpy (store_ulong (\<lambda>x. 0) 0 (mask 1)) 8 long_name) 40 1
        (44 + k)) [0..<32]) = length ([0x62, 0x62, 0x62, 0x62] @ replicate 28 (0::byte))"
      by simp
  next
    fix i
    assume "i < length (map (\<lambda>k. store_u32 (strcpy (store_ulong (\<lambda>x. 0) 0 (mask 1)) 8 long_name)
        40 1 (44 + k)) [0..<32])"
    then have i: "i < 32" by simp
    show "map (\<lambda>k. store_u32 (strcpy (store_ulong (\<lambda>x. 0) 0 (mask 1)) 8 long_name) 40 1
        (44 + k)) [0..<32] ! i = ([0x62, 0x62, 0x62, 0x62] @ replicate 28 0) ! i"
    proof (cases "i < 4")
      case True
      then have "([0x62, 0x62, 0x62, 0x62] @ replicate 28 (0::byte)) ! i = 0x62"
        by (auto simp: nth_append nth_Cons' )
      with True i show ?thesis
        by (simp add: store_u32_def store_le_def strcpy_def cstr_nth_long_name len)
    next
      case False
      then have "([0x62, 0x62, 0x62, 0x62] @ replicate 28 (0::byte)) ! i = 0"
        using i by (simp add: nth_append)
      with False i show ?thesis
        by (simp add: store_u32_def store_le_def strcpy_def cstr_nth_long_name len
            store_ulong_def)
    qed
  qed
  have "length long_name = 40 \<and> 0 \<notin> set long_name"
    by (simp add: long_name_bytes)
  with ok f0 m1 f1 show ?thesis
    by simp
qed

text \<open>
  C2 (as amended).  A create or mkdir that finds no free slot in the directory returns the
  out-of-space condition and leaves the whole state unchanged, the directory's bitmap and
  entries included.  The inode pool is smaller than a directory: in the root of the freshly
  formatted and mounted file system the first 31 creates succeed, filling slots 0 to 30,
  and the 32nd fails for lack of an in-memory inode.
\<close>

theorem create_out_of_space:
  "(dirino < ARRAYFS_NR_INODES \<and> find_first_zero_bit (dir_bitmap s dirino) 64 = 64 \<longrightarrow>
       arrayfs_create s dirino name md env = (Inl ENOSPC, s) \<and>
       arrayfs_mkdir s dirino name md env = (Inl ENOSPC, s)) \<and>
   (length names = 31 \<and> kernel_alloc_ok env \<and> insert_inode_ok env \<longrightarrow>
       fst (create_seq mounted_state 0 names md env) = replicate 31 (Inr ()) \<and>
       dir_bitmap (snd (create_seq mounted_state 0 names md env)) 0 = mask 31 \<and>
       fst (arrayfs_create (snd (create_seq mounted_state 0 names md env)) 0 name md env)
         = Inl ENOMEM)"
proof -
  have seq: "fst (create_seq mounted_state 0 names md env) = replicate 31 (Inr ()) \<and>
       dir_bitmap (snd (create_seq mounted_state 0 names md env)) 0 = mask 31 \<and>
       fst (arrayfs_create (snd (create_seq mounted_state 0 names md env)) 0 name md env)
         = Inl ENOMEM"
    if len: "length names = 31" and env: "kernel_alloc_ok env" "insert_inode_ok env"
  proof -
    let ?t = "snd (create_seq mounted_state 0 names md env)"
    have z: "(0::nat) < ARRAYFS_NR_INODES"
      by (simp add: ARRAYFS_NR_INODES_def)
    from mounted_state_bitmaps
    have b: "dir_bitmap mounted_state 0 = mask 0" "inode_bm (global_sb mounted_state) = mask 1"
      "disk_inode_bm mounted_state = mask 1"
      by simp_all
    from create_seq_ok [OF z env b, of names md] len
    have r: "fst (create_seq mounted_state 0 names md env) = replicate 31 (Inr ())"
      "dir_bitmap ?t 0 = mask 31" "inode_bm (global_sb ?t) = mask 32"
      by simp_all
    from arrayfs_create_no_memory [OF z r(2) _ r(3), of name md env]
    have "fst (arrayfs_create ?t 0 name md env) = Inl ENOMEM"
      by simp
    with r show ?thesis by simp
  qed
  show ?thesis
    using arrayfs_create_dir_full seq by blast
qed

theorem create_out_of_space_witness:
  "(0::nat) < ARRAYFS_NR_INODES \<and>
   find_first_zero_bit (dir_bitmap full_dir_state 0) 64 = 64 \<and>
   arrayfs_create full_dir_state 0 (bytes_of ''h'') S_IFREG vfs_ok = (Inl ENOSPC, full_dir_state) \<and>
   length many_names = 31 \<and> kernel_alloc_ok vfs_ok \<and> insert_inode_ok vfs_ok \<and>
   fst (create_seq mounted_state 0 many_names S_IFREG vfs_ok) = replicate 31 (Inr ()) \<and>
   fst (arrayfs_create (snd (create_seq mounted_state 0 many_names S_IFREG vfs_ok)) 0
          (bytes_of ''h'') S_IFREG vfs_ok) = Inl ENOMEM"
proof -
  have z: "(0::nat) < ARRAYFS_NR_INODES"
    by (simp add: ARRAYFS_NR_INODES_def)
  have env: "kernel_alloc_ok vfs_ok" "insert_inode_ok vfs_ok"
    by (simp_all add: vfs_ok_def)
  from create_out_of_space [where dirino = 0 and s = full_dir_state and name = "bytes_of ''h''"
      and md = S_IFREG and env = vfs_ok and names = many_names]
    z full_dir_state_full many_names_length env
  show ?thesis
    by simp
qed

text \<open>The claim as first stated fails twice.  Of 32 distinct names the 32nd is refused, long
  before the directory's 64 slots are used up.  And after a second mount has reset the
  in-memory inode bitmap, a create that fails with the out-of-space condition, all 32 disk
  inodes being taken, has set bit 31 of the directory's bitmap.\<close>

theorem create_leaks_slot_counterexample:
  "distinct many_names \<and> length many_names = 31 \<and>
   fst (create_seq mounted_state 0 many_names S_IFREG vfs_ok) = replicate 31 (Inr ()) \<and>
   fst (arrayfs_create (snd (create_seq mounted_state 0 many_names S_IFREG vfs_ok)) 0
          (bytes_of ''g'') S_IFREG vfs_ok) = Inl ENOMEM \<and>
   dir_bitmap remounted_full_state 0 = 0x7FFFFFFF \<and>
   fst (arrayfs_create remounted_full_state 0 (bytes_of ''g'') S_IFREG vfs_ok) = Inl ENOSPC \<and>
   dir_bitmap (snd (arrayfs_create remounted_full_state 0 (bytes_of ''g'') S_IFREG vfs_ok)) 0
     = 0xFFFFFFFF"
proof -
  let ?t = "snd (create_seq mounted_state 0 many_names S_IFREG vfs_ok)"
  have z: "(0::nat) < ARRAYFS_NR_INODES"
    by (simp add: ARRAYFS_NR_INODES_def)
  have env: "kernel_alloc_ok vfs_ok" "insert_inode_ok vfs_ok"
    by (simp_all add: vfs_ok_def)
  from mounted_state_bitmaps
  have b: "dir_bitmap mounted_state 0 = mask 0" "inode_bm (global_sb mounted_state) = mask 1"
    "disk_inode_bm mounted_state = mask 1"
    by simp_all
  from create_seq_ok [OF z env b, of many_names S_IFREG] many_names_length
  have r: "fst (create_seq mounted_state 0 many_names S_IFREG vfs_ok) = replicate 31 (Inr ())"
    "dir_bitmap ?t 0 = mask 31" "inode_bm (global_sb ?t) = mask 32"
    by simp_all
  from arrayfs_create_no_memory [OF z r(2) _ r(3), of "bytes_of ''g''" S_IFREG vfs_ok]
  have nomem: "fst (arrayfs_create ?t 0 (bytes_of ''g'') S_IFREG vfs_ok) = Inl ENOMEM"
    by simp
  have d: "distinct many_names"
    by code_simp
  from d many_names_length r(1) nomem remounted_full_state_bitmaps remounted_create_no_space
  show ?thesis
    by (simp add: mask_31 mask_32)
qed

text \<open>
  A create that has found a free slot in the directory and then fails, for lack of an
  inode or for any other reason, returns with the slot's bit set in the directory's bitmap:
  the bit set before the inode is allocated is not cleared on the way out.
\<close>

theorem create_failure_keeps_slot_bit:
  assumes "dirino < ARRAYFS_NR_INODES"
    and "find_first_zero_bit (dir_bitmap s dirino) 64 < 64"
    and "fst (arrayfs_create s dirino name md env) = Inl e"
  shows "dir_bitmap (snd (arrayfs_create s dirino name md env)) dirino
           = set_bit (find_first_zero_bit (dir_bitmap s dirino) 64) (dir_bitmap s dirino) \<and>
         dir_bitmap (snd (arrayfs_create s dirino name md env)) dirino \<noteq> dir_bitmap s dirino"
proof -
  let ?dd = "dir_data_addr dirino"
  let ?w = "dir_bitmap s dirino"
  let ?k = "find_first_zero_bit ?w 64"
  let ?s1 = "s\<lparr>global_data := store_ulong (global_data s) ?dd (set_bit ?k ?w)\<rparr>"
  obtain r s2 where n: "arrayfs_new_inode ?s1 md env = (r, s2)"
    by (cases "arrayfs_new_inode ?s1 md env")
  have d: "global_data s2 = global_data ?s1"
    using n by (rule arrayfs_new_inode_data)
  have c: "arrayfs_create s dirino name md env =
      (case r of Inl e \<Rightarrow> (Inl e, s2)
       | Inr ino \<Rightarrow> (Inr (), s2\<lparr>global_data :=
             store_u32 (strcpy (global_data s2) (entry_name_addr ?dd ?k) name)
               (entry_ino_addr ?dd ?k) (of_nat ino)\<rparr>))"
    using assms(1,2) n
    by (simp add: arrayfs_create_def Let_def dir_bitmap_def split: sum.splits)
  with assms(3) have "snd (arrayfs_create s dirino name md env) = s2"
    by (cases r) simp_all
  then have "dir_bitmap (snd (arrayfs_create s dirino name md env)) dirino = set_bit ?k ?w"
    using d by (simp add: dir_bitmap_def load_ulong_store_ulong)
  moreover have "set_bit ?k ?w \<noteq> ?w"
  proof
    assume "set_bit ?k ?w = ?w"
    then have "bit ?w ?k = bit (set_bit ?k ?w) ?k"
      by simp
    also have "\<dots>"
      using assms(2) by (simp add: bit_set_bit_iff)
    finally show False
      using find_first_zero_bit_less [OF assms(2)] by simp
  qed
  ultimately show ?thesis
    by simp
qed

theorem create_failure_keeps_slot_bit_witness:
  "(0::nat) < ARRAYFS_NR_INODES \<and>
   find_first_zero_bit (dir_bitmap remounted_full_state 0) 64 = 31 \<and>
   fst (arrayfs_create remounted_full_state 0 (bytes_of ''g'') S_IFREG vfs_ok) = Inl ENOSPC \<and>
   dir_bitmap (snd (arrayfs_create remounted_full_state 0 (bytes_of ''g'') S_IFREG vfs_ok)) 0
     = set_bit 31 (dir_bitmap remounted_full_state 0) \<and>
   dir_bitmap (snd (arrayfs_create remounted_full_state 0 (bytes_of ''g'') S_IFREG vfs_ok)) 0
     \<noteq> dir_bitmap remounted_full_state 0"
proof -
  have z: "(0::nat) < ARRAYFS_NR_INODES"
    by (simp add: ARRAYFS_NR_INODES_def)
  have f: "find_first_zero_bit (dir_bitmap remounted_full_state 0) 64 = 31"
    using remounted_full_state_bitmaps by (simp add: find_first_zero_bit_mask)
  have e: "fst (arrayfs_create remounted_full_state 0 (bytes_of ''g'') S_IFREG vfs_ok) = Inl ENOSPC"
    using remounted_create_no_space by simp
  have lt: "find_first_zero_bit (dir_bitmap remounted_full_state 0) 64 < 64"
    using f by simp
  have "dir_bitmap (snd (arrayfs_create remounted_full_state 0 (bytes_of ''g'') S_IFREG vfs_ok)) 0
     = set_bit 31 (dir_bitmap remounted_full_state 0) \<and>
   dir_bitmap (snd (arrayfs_create remounted_full_state 0 (bytes_of ''g'') S_IFREG vfs_ok)) 0
     \<noteq> dir_bitmap remounted_full_state 0"
    using create_failure_keeps_slot_bit [OF z lt e] unfolding f .
  with z f e show ?thesis
    by blast
qed

section \<open>Creating and finding entries\<close>

lemma arrayfs_new_inode_ok:
  assumes "arrayfs_new_inode s md env = (Inr ino, s')"
  shows "ino < ARRAYFS_NR_INODES \<and> \<not> bit (disk_inode_bm s) ino \<and> bit (disk_inode_bm s') ino \<and>
         global_inodes s' ino = \<lparr>mode = md, size_bytes = 0\<rparr> \<and> global_data s' = global_data s"
proof -
  obtain pa s1 where a: "alloc_inode s env = (Some pa, s1)"
    using assms by (auto simp: arrayfs_new_inode_def split: prod.splits option.splits)
  have d1: "disk_inode_bm s1 = disk_inode_bm s" "global_data s1 = global_data s"
    using a
    by (auto simp: alloc_inode_def arrayfs_alloc_inode_def Let_def
        split: prod.splits option.splits if_splits)
  let ?i = "find_first_zero_bit (disk_inode_bm s1) ARRAYFS_NR_INODES"
  have ne: "?i \<noteq> ARRAYFS_NR_INODES" and ino: "ino = ?i" and ok: "insert_inode_ok env"
    and s': "s' = s1\<lparr>disk_inode_bm := set_bit ?i (disk_inode_bm s1),
                     global_inodes := (global_inodes s1)(?i := \<lparr>mode = md, size_bytes = 0\<rparr>)\<rparr>"
    using assms a
    by (auto simp: arrayfs_new_inode_def disk_inode_claim_def Let_def split: if_splits)
  from ne find_first_zero_bit_le [of "disk_inode_bm s1" ARRAYFS_NR_INODES]
  have lt: "?i < ARRAYFS_NR_INODES" by simp
  from find_first_zero_bit_less [OF lt] have nb: "\<not> bit (disk_inode_bm s1) ?i"
    by simp
  have "?i < 64"
    using lt by (simp add: ARRAYFS_NR_INODES_def)
  then have "bit (set_bit ?i (disk_inode_bm s1)) ?i"
    by (simp add: bit_set_bit_iff)
  with lt nb ino s' d1 show ?thesis
    by simp
qed

lemma arrayfs_create_ok_data:
  assumes "dirino < ARRAYFS_NR_INODES"
    and "find_first_zero_bit (dir_bitmap s dirino) 64 < 64"
    and "arrayfs_create s dirino name md env = (Inr (), s')"
  shows "\<exists>ino < ARRAYFS_NR_INODES.
           global_data s' =
             store_u32
               (strcpy
                  (store_ulong (global_data s) (dir_data_addr dirino)
                     (set_bit (find_first_zero_bit (dir_bitmap s dirino) 64) (dir_bitmap s dirino)))
                  (entry_name_addr (dir_data_addr dirino)
                     (find_first_zero_bit (dir_bitmap s dirino) 64)) name)
               (entry_ino_addr (dir_data_addr dirino)
                  (find_first_zero_bit (dir_bitmap s dirino) 64)) (of_nat ino) \<and>
           \<not> bit (disk_inode_bm s) ino \<and> bit (disk_inode_bm s') ino \<and>
           global_inodes s' ino = \<lparr>mode = md, size_bytes = 0\<rparr>"
proof -
  let ?dd = "dir_data_addr dirino"
  let ?w = "dir_bitmap s dirino"
  let ?k = "find_first_zero_bit ?w 64"
  let ?s1 = "s\<lparr>global_data := store_ulong (global_data s) ?dd (set_bit ?k ?w)\<rparr>"
  obtain r s2 where n: "arrayfs_new_inode ?s1 md env = (r, s2)"
    by (cases "arrayfs_new_inode ?s1 md env")
  have c: "arrayfs_create s dirino name md env =
      (case r of Inl e \<Rightarrow> (Inl e, s2)
       | Inr ino \<Rightarrow> (Inr (), s2\<lparr>global_data :=
             store_u32 (strcpy (global_data s2) (entry_name_addr ?dd ?k) name)
               (entry_ino_addr ?dd ?k) (of_nat ino)\<rparr>))"
    using assms(1,2) n
    by (simp add: arrayfs_create_def Let_def dir_bitmap_def split: sum.splits)
  with assms(3) obtain ino where r: "r = Inr ino"
    and s': "s' = s2\<lparr>global_data :=
             store_u32 (strcpy (global_data s2) (entry_name_addr ?dd ?k) name)
               (entry_ino_addr ?dd ?k) (of_nat ino)\<rparr>"
    by (cases r) auto
  from arrayfs_new_inode_ok [OF n [unfolded r]]
  have "ino < ARRAYFS_NR_INODES" "\<not> bit (disk_inode_bm s) ino" "bit (disk_inode_bm s2) ino"
    "global_inodes s2 ino = \<lparr>mode = md, size_bytes = 0\<rparr>" "global_data s2 = global_data ?s1"
    by simp_all
  with s' show ?thesis
    by (intro exI [of _ ino]) simp
qed

lemma names_equal_cong32:
  "\<forall>i<32. a i = a' i \<Longrightarrow> names_equal a b = names_equal a' b"
  unfolding names_equal_def
proof -
  assume eq: "\<forall>i<32. a i = a' i"
  have "(\<forall>j<i. a j \<noteq> 0) = (\<forall>j<i. a' j \<noteq> 0)" if "i < 32" for i
  proof -
    have "a j = a' j" if "j < i" for j
      using eq that \<open>i < 32\<close> by simp
    then show ?thesis by auto
  qed
  with eq show "(\<forall>i<32. (\<forall>j<i. a j \<noteq> 0) \<longrightarrow> a i = b i) = (\<forall>i<32. (\<forall>j<i. a' j \<noteq> 0) \<longrightarrow> a' i = b i)"
    by auto
qed

lemma cstr_nth_terminator: "cstr_nth name (length (c_str name)) = 0"
  by (simp add: cstr_nth_def)

lemma names_equal_prefix:
  assumes "\<forall>i<32. i \<le> length (c_str name) \<longrightarrow> a i = cstr_nth name i"
  shows "names_equal a (cstr_nth name)"
  unfolding names_equal_def
proof (intro allI impI)
  fix i :: nat
  assume i: "i < 32" and nz: "\<forall>j<i. a j \<noteq> 0"
  show "a i = cstr_nth name i"
  proof (cases "i \<le> length (c_str name)")
    case True
    with assms i show ?thesis by simp
  next
    case False
    then have l: "length (c_str name) < i" by simp
    with i assms have "a (length (c_str name)) = cstr_nth name (length (c_str name))"
      by simp
    then have "a (length (c_str name)) = 0"
      by (simp add: cstr_nth_terminator)
    with nz l show ?thesis by blast
  qed
qed

lemma arrayfs_create_own_slot:
  assumes "dirino < ARRAYFS_NR_INODES"
    and "find_first_zero_bit (dir_bitmap s dirino) 64 < 64"
    and "arrayfs_create s dirino name md env = (Inr (), s')"
  shows "bit (dir_bitmap s' dirino) (find_first_zero_bit (dir_bitmap s dirino) 64) \<and>
         names_equal (name_field s' dirino (find_first_zero_bit (dir_bitmap s dirino) 64))
           (cstr_nth name)"
proof -
  let ?dd = "dir_data_addr dirino"
  let ?w = "dir_bitmap s dirino"
  let ?k = "find_first_zero_bit ?w 64"
  let ?ena = "entry_name_addr ?dd ?k"
  let ?eia = "entry_ino_addr ?dd ?k"
  from arrayfs_create_ok_data [OF assms(1-3)] obtain ino where
    G: "global_data s' =
          store_u32 (strcpy (store_ulong (global_data s) ?dd (set_bit ?k ?w)) ?ena name)
            ?eia (of_nat ino)"
    by blast
  have bm: "dir_bitmap s' dirino = set_bit ?k ?w"
    unfolding dir_bitmap_def G
    by (simp add: load_ulong_store_u32 load_ulong_strcpy load_ulong_store_ulong
        entry_ino_addr_def entry_name_addr_def flip: dir_bitmap_def)
  have own: "names_equal (name_field s' dirino ?k) (cstr_nth name)"
  proof (rule names_equal_prefix, intro allI impI)
    fix i :: nat
    assume "i < 32" "i \<le> length (c_str name)"
    then show "name_field s' dirino ?k i = cstr_nth name i"
      unfolding name_field_def G
      by (simp add: store_u32_def store_le_def strcpy_def entry_ino_addr_def entry_name_addr_def)
  qed
  have "bit (dir_bitmap s' dirino) ?k"
    using assms(2) by (simp add: bm bit_set_bit_iff)
  with own show ?thesis
    by simp
qed

lemma first_match_SomeI:
  assumes "k < 64" "bit (dir_bitmap s d) k" "names_equal (name_field s d k) (cstr_nth name)"
    and "\<forall>j<k. \<not> names_equal (name_field s d j) (cstr_nth name)"
  shows "first_match s d name = Some k"
proof -
  from first_match_cases [of s d name]
  consider (none) "\<forall>i<64. bit (dir_bitmap s d) i \<longrightarrow> \<not> names_equal (name_field s d i) (cstr_nth name)"
    | (some) idx where "first_match s d name = Some idx" "idx < 64" "bit (dir_bitmap s d) idx"
        "names_equal (name_field s d idx) (cstr_nth name)"
        "\<forall>j<idx. bit (dir_bitmap s d) j \<longrightarrow> \<not> names_equal (name_field s d j) (cstr_nth name)"
    by blast
  then show ?thesis
  proof cases
    case none
    with assms(1-3) show ?thesis by blast
  next
    case some
    have "\<not> idx < k"
      using assms(4) some(4) by blast
    moreover have "\<not> k < idx"
      using some(5) assms(2,3) by blast
    ultimately have "idx = k" by simp
    with some(1) show ?thesis by simp
  qed
qed

lemma mounted_state_first_zero: "find_first_zero_bit (dir_bitmap mounted_state 0) 64 = 0"
proof -
  have "dir_bitmap mounted_state 0 = mask 0"
    using mounted_state_bitmaps by blast
  then show ?thesis
    by (simp only: find_first_zero_bit_mask)
qed

lemma one_file_create:
  "arrayfs_create mounted_state 0 (bytes_of ''a.txt'') S_IFREG vfs_ok = (Inr (), one_file_state)"
proof -
  have z: "(0::nat) < ARRAYFS_NR_INODES"
    by (simp add: ARRAYFS_NR_INODES_def)
  have env: "kernel_alloc_ok vfs_ok" "insert_inode_ok vfs_ok"
    by (simp_all add: vfs_ok_def)
  from mounted_state_bitmaps
  have b: "dir_bitmap mounted_state 0 = mask 0" "inode_bm (global_sb mounted_state) = mask 1"
    "disk_inode_bm mounted_state = mask 1"
    by simp_all
  from arrayfs_create_ok [OF z b(1) _ b(2) _ b(3) _ env, of "bytes_of ''a.txt''" S_IFREG]
  have "fst (arrayfs_create mounted_state 0 (bytes_of ''a.txt'') S_IFREG vfs_ok) = Inr ()"
    by auto
  then show ?thesis
    by (simp add: one_file_state_def prod_eq_iff)
qed

lemma a_txt_length: "length (c_str (bytes_of ''a.txt'')) = 5"
  by (simp add: c_str_def bytes_of_def)

text \<open>
  A successful create is found again: if no slot below the first free slot of the
  directory holds an equal name, lookup of the created name settles on the slot just
  filled, which holds the number of a disk inode that was free before, is allocated now
  and carries the given mode and size 0; with the inode in the inode cache, lookup
  returns that number and changes nothing.
\<close>

theorem create_then_lookup:
  assumes "dirino < ARRAYFS_NR_INODES"
    and "find_first_zero_bit (dir_bitmap s dirino) 64 < 64"
    and "arrayfs_create s dirino name md env = (Inr (), s')"
    and "\<forall>j < find_first_zero_bit (dir_bitmap s dirino) 64.
           \<not> names_equal (name_field s dirino j) (cstr_nth name)"
  shows "first_match s' dirino name = Some (find_first_zero_bit (dir_bitmap s dirino) 64) \<and>
         entry_ino s' dirino (find_first_zero_bit (dir_bitmap s dirino) 64) < ARRAYFS_NR_INODES \<and>
         \<not> bit (disk_inode_bm s) (entry_ino s' dirino (find_first_zero_bit (dir_bitmap s dirino) 64)) \<and>
         bit (disk_inode_bm s') (entry_ino s' dirino (find_first_zero_bit (dir_bitmap s dirino) 64)) \<and>
         global_inodes s' (entry_ino s' dirino (find_first_zero_bit (dir_bitmap s dirino) 64))
           = \<lparr>mode = md, size_bytes = 0\<rparr> \<and>
         (icache_hit env' \<longrightarrow>
            arrayfs_lookup s' dirino name env'
              = (Inr (Some (entry_ino s' dirino (find_first_zero_bit (dir_bitmap s dirino) 64))), s'))"
proof -
  let ?dd = "dir_data_addr dirino"
  let ?w = "dir_bitmap s dirino"
  let ?k = "find_first_zero_bit ?w 64"
  let ?ena = "entry_name_addr ?dd ?k"
  let ?eia = "entry_ino_addr ?dd ?k"
  from arrayfs_create_ok_data [OF assms(1-3)] obtain ino where
    ino: "ino < ARRAYFS_NR_INODES" and
    G: "global_data s' =
          store_u32 (strcpy (store_ulong (global_data s) ?dd (set_bit ?k ?w)) ?ena name)
            ?eia (of_nat ino)" and
    disk: "\<not> bit (disk_inode_bm s) ino" "bit (disk_inode_bm s') ino"
      "global_inodes s' ino = \<lparr>mode = md, size_bytes = 0\<rparr>"
    by blast
  have "load_u32 (global_data s') ?eia = of_nat ino"
    unfolding G by (rule load_u32_store_u32)
  moreover have "unat (of_nat ino :: u32) = ino"
    using ino by (simp add: ARRAYFS_NR_INODES_def unat_of_nat)
  ultimately have ei: "entry_ino s' dirino ?k = ino"
    by (simp add: entry_ino_def)
  from arrayfs_create_own_slot [OF assms(1-3)]
  have own: "bit (dir_bitmap s' dirino) ?k" "names_equal (name_field s' dirino ?k) (cstr_nth name)"
    by simp_all
  have lower: "\<not> names_equal (name_field s' dirino j) (cstr_nth name)" if "j < ?k" for j
  proof -
    have "name_field s' dirino j i = name_field s dirino j i" if "i < 32" for i
    proof -
      have "36 * j + i < 36 * ?k"
        using \<open>j < ?k\<close> that by arith
      then show ?thesis
        unfolding name_field_def G
        by (simp add: store_u32_def store_le_def strcpy_def store_ulong_def entry_ino_addr_def
            entry_name_addr_def)
    qed
    then have "names_equal (name_field s' dirino j) (cstr_nth name)
        = names_equal (name_field s dirino j) (cstr_nth name)"
      by (intro names_equal_cong32) simp
    with assms(4) that show ?thesis by simp
  qed
  from assms(2) own lower have fm: "first_match s' dirino name = Some ?k"
    by (intro first_match_SomeI) simp_all
  have "arrayfs_lookup s' dirino name env' = (Inr (Some ino), s')" if "icache_hit env'"
    using arrayfs_lookup_scan [OF assms(1), of s' name env'] that
    by (simp add: fm ei arrayfs_iget_def)
  with fm ei ino disk show ?thesis
    by simp
qed

theorem create_then_lookup_witness:
  "(0::nat) < ARRAYFS_NR_INODES \<and>
   find_first_zero_bit (dir_bitmap mounted_state 0) 64 = 0 \<and>
   arrayfs_create mounted_state 0 (bytes_of ''a.txt'') S_IFREG vfs_ok = (Inr (), one_file_state) \<and>
   first_match one_file_state 0 (bytes_of ''a.txt'') = Some 0 \<and>
   entry_ino one_file_state 0 0 = 1 \<and>
   arrayfs_lookup one_file_state 0 (bytes_of ''a.txt'') (vfs_ok\<lparr>icache_hit := True\<rparr>)
     = (Inr (Some 1), one_file_state)"
proof -
  have z: "(0::nat) < ARRAYFS_NR_INODES"
    by (simp add: ARRAYFS_NR_INODES_def)
  have lt: "find_first_zero_bit (dir_bitmap mounted_state 0) 64 < 64"
    by (simp add: mounted_state_first_zero)
  have none: "\<forall>j < find_first_zero_bit (dir_bitmap mounted_state 0) 64.
      \<not> names_equal (name_field mounted_state 0 j) (cstr_nth (bytes_of ''a.txt''))"
    by (simp add: mounted_state_first_zero)
  from create_then_lookup [OF z lt one_file_create none, of "vfs_ok\<lparr>icache_hit := True\<rparr>"]
  have "first_match one_file_state 0 (bytes_of ''a.txt'') = Some 0 \<and>
      arrayfs_lookup one_file_state 0 (bytes_of ''a.txt'') (vfs_ok\<lparr>icache_hit := True\<rparr>)
        = (Inr (Some (entry_ino one_file_state 0 0)), one_file_state)"
    by (simp add: mounted_state_first_zero)
  with z mounted_state_first_zero one_file_create one_file_entry_ino show ?thesis
    by simp
qed

text \<open>
  A name of at most 31 characters is stored within its field: after a successful
  create the name field of the new slot begins with the name and its NUL terminator, and
  outside the directory's bitmap and the 36 bytes of the new entry no byte of the data
  array has changed.
\<close>

theorem short_name_stays_in_field:
  assumes "dirino < ARRAYFS_NR_INODES"
    and "find_first_zero_bit (dir_bitmap s dirino) 64 < 64"
    and "arrayfs_create s dirino name md env = (Inr (), s')"
    and "length (c_str name) \<le> 31"
  shows "take (length (c_str name) + 1)
           (entry_name s' dirino (find_first_zero_bit (dir_bitmap s dirino) 64))
           = c_str name @ [0] \<and>
         (\<forall>x. \<not> (dir_data_addr dirino \<le> x \<and> x < dir_data_addr dirino + 8) \<and>
              \<not> (entry_name_addr (dir_data_addr dirino)
                     (find_first_zero_bit (dir_bitmap s dirino) 64) \<le> x \<and>
                  x < entry_name_addr (dir_data_addr dirino)
                     (find_first_zero_bit (dir_bitmap s dirino) 64) + 36)
              \<longrightarrow> global_data s' x = global_data s x)"
proof -
  let ?dd = "dir_data_addr dirino"
  let ?w = "dir_bitmap s dirino"
  let ?k = "find_first_zero_bit ?w 64"
  let ?ena = "entry_name_addr ?dd ?k"
  let ?eia = "entry_ino_addr ?dd ?k"
  let ?n = "length (c_str name)"
  from arrayfs_create_ok_data [OF assms(1-3)] obtain ino where
    G: "global_data s' =
          store_u32 (strcpy (store_ulong (global_data s) ?dd (set_bit ?k ?w)) ?ena name)
            ?eia (of_nat ino)"
    by blast
  have "take (?n + 1) (entry_name s' dirino ?k) = c_str name @ [0]"
  proof (rule nth_equalityI)
    show "length (take (?n + 1) (entry_name s' dirino ?k)) = length (c_str name @ [0])"
      using assms(4) by (simp add: entry_name_def load_bytes_def)
  next
    fix i
    assume "i < length (take (?n + 1) (entry_name s' dirino ?k))"
    then have i: "i < ?n + 1" "i < 32"
      by (simp_all add: entry_name_def load_bytes_def)
    then have "take (?n + 1) (entry_name s' dirino ?k) ! i = cstr_nth name i"
      unfolding entry_name_def load_bytes_def G
      by (simp add: store_u32_def store_le_def strcpy_def entry_ino_addr_def entry_name_addr_def)
    also have "\<dots> = (c_str name @ [0]) ! i"
      using i by (auto simp: cstr_nth_def nth_append)
    finally show "take (?n + 1) (entry_name s' dirino ?k) ! i = (c_str name @ [0]) ! i" .
  qed
  moreover have "global_data s' x = global_data s x"
    if "\<not> (?dd \<le> x \<and> x < ?dd + 8)" "\<not> (?ena \<le> x \<and> x < ?ena + 36)" for x
    using that assms(4) unfolding G
    by (auto simp: store_u32_def store_le_def strcpy_def store_ulong_def entry_ino_addr_def
        entry_name_addr_def)
  ultimately show ?thesis
    by blast
qed

theorem short_name_stays_in_field_witness:
  "(0::nat) < ARRAYFS_NR_INODES \<and>
   find_first_zero_bit (dir_bitmap mounted_state 0) 64 = 0 \<and>
   arrayfs_create mounted_state 0 (bytes_of ''a.txt'') S_IFREG vfs_ok = (Inr (), one_file_state) \<and>
   length (c_str (bytes_of ''a.txt'')) = 5 \<and>
   take 6 (entry_name one_file_state 0 0) = c_str (bytes_of ''a.txt'') @ [0] \<and>
   global_data one_file_state (entry_name_addr (dir_data_addr 0) 1)
     = global_data mounted_state (entry_name_addr (dir_data_addr 0) 1)"
proof -
  have z: "(0::nat) < ARRAYFS_NR_INODES"
    by (simp add: ARRAYFS_NR_INODES_def)
  have lt: "find_first_zero_bit (dir_bitmap mounted_state 0) 64 < 64"
    by (simp add: mounted_state_first_zero)
  have le: "length (c_str (bytes_of ''a.txt'')) \<le> 31"
    by (simp add: a_txt_length)
  from short_name_stays_in_field [OF z lt one_file_create le]
  have t: "take 6 (entry_name one_file_state 0 0) = c_str (bytes_of ''a.txt'') @ [0]"
    and f: "\<And>x. \<not> (dir_data_addr 0 \<le> x \<and> x < dir_data_addr 0 + 8) \<Longrightarrow>
        \<not> (entry_name_addr (dir_data_addr 0) 0 \<le> x \<and> x < entry_name_addr (dir_data_addr 0) 0 + 36)
        \<Longrightarrow> global_data one_file_state x = global_data mounted_state x"
    by (simp_all add: mounted_state_first_zero a_txt_length)
  have "global_data one_file_state (entry_name_addr (dir_data_addr 0) 1)
     = global_data mounted_state (entry_name_addr (dir_data_addr 0) 1)"
    by (rule f) (simp_all add: entry_name_addr_def)
  with z mounted_state_first_zero one_file_create a_txt_length t show ?thesis
    by simp
qed

text \<open>
  After initialisation, whatever the storage held before, inode 0 is a directory of
  size 0, it is the only allocated disk inode, the root directory is empty (every lookup
  misses and iteration emits nothing), and the file system is not mounted: a first mount
  succeeds and a second one without an unmount in between is refused as busy.
\<close>

theorem root_bootstrap:
  "mode (global_inodes (init_arrayfs s) 0) AND S_IFMT = S_IFDIR \<and>
   size_bytes (global_inodes (init_arrayfs s) 0) = 0 \<and>
   disk_inode_bm (init_arrayfs s) = 1 \<and>
   dir_bitmap (init_arrayfs s) 0 = 0 \<and>
   mounted (global_sb (init_arrayfs s)) = 0 \<and>
   arrayfs_lookup (init_arrayfs s) 0 name env = (Inr None, init_arrayfs s) \<and>
   arrayfs_readdir (init_arrayfs s) 0 actor \<lparr>pos = 0, emitted = []\<rparr>
     = (Inr 0, \<lparr>pos = 64, emitted = []\<rparr>) \<and>
   fst (arrayfs_fill_super (init_arrayfs s) vfs_ok) = Inr () \<and>
   fst (arrayfs_fill_super (snd (arrayfs_fill_super (init_arrayfs s) vfs_ok)) env) = Inl EBUSY"
proof -
  let ?t = "init_arrayfs s"
  have z: "(0::nat) < ARRAYFS_NR_INODES"
    by (simp add: ARRAYFS_NR_INODES_def)
  have m: "mode (global_inodes ?t 0) AND S_IFMT = S_IFDIR"
    by (simp add: init_arrayfs_def mkfs_arrayfs_def Let_def S_IFMT_def S_IFDIR_def S_IRWXU_def
        S_IRGRP_def S_IXGRP_def S_IROTH_def S_IXOTH_def)
  have sz: "size_bytes (global_inodes ?t 0) = 0" and bm: "disk_inode_bm ?t = 1"
    and mt: "mounted (global_sb ?t) = 0"
    by (simp_all add: init_arrayfs_def mkfs_arrayfs_def Let_def)
  have db: "dir_bitmap ?t 0 = 0"
    by (simp add: init_arrayfs_def mkfs_arrayfs_def Let_def dir_bitmap_def load_ulong_store_ulong)
  have "first_match ?t 0 name = None"
    by (simp add: first_match_def find_None_iff db)
  with arrayfs_lookup_scan [OF z, of ?t name env]
  have lk: "arrayfs_lookup ?t 0 name env = (Inr None, ?t)"
    by simp
  have "filter (bit (load_ulong (global_data ?t) (dir_data_addr 0))) [0..<64] = []"
    using db by (simp add: dir_bitmap_def filter_empty_conv)
  then have rd: "arrayfs_readdir ?t 0 actor \<lparr>pos = 0, emitted = []\<rparr>
      = (Inr 0, \<lparr>pos = 64, emitted = []\<rparr>)"
    using z by (simp add: arrayfs_readdir_def readdir_loop_emit_slots)
  from mount_ok [OF mt]
  have f1: "arrayfs_fill_super ?t vfs_ok
      = (Inr (), ?t\<lparr>global_sb := (global_sb ?t)\<lparr>mounted := 1, inode_bm := mask 1\<rparr>\<rparr>)" .
  then have f2: "fst (arrayfs_fill_super (snd (arrayfs_fill_super ?t vfs_ok)) env) = Inl EBUSY"
    by (simp add: fill_super_busy)
  from m sz bm db mt lk rd f1 f2 show ?thesis
    by simp
qed

section \<open>Lookup when no inode object is left\<close>

lemma many_names_split: "many_names = butlast many_names @ [last many_names]"
  by (simp add: many_names_def)

lemma exhausted_lookup:
  "(\<exists>idx. first_match (snd (create_seq mounted_state 0 many_names S_IFREG vfs_ok)) 0
            (last many_names) = Some idx) \<and>
   fst (arrayfs_lookup (snd (create_seq mounted_state 0 many_names S_IFREG vfs_ok)) 0
          (last many_names) vfs_ok) = Inl EIO"
proof -
  let ?t30 = "snd (create_seq mounted_state 0 (butlast many_names) S_IFREG vfs_ok)"
  let ?t = "snd (create_seq mounted_state 0 many_names S_IFREG vfs_ok)"
  have z: "(0::nat) < ARRAYFS_NR_INODES"
    by (simp add: ARRAYFS_NR_INODES_def)
  have env: "kernel_alloc_ok vfs_ok" "insert_inode_ok vfs_ok"
    by (simp_all add: vfs_ok_def)
  from mounted_state_bitmaps
  have b: "dir_bitmap mounted_state 0 = mask 0" "inode_bm (global_sb mounted_state) = mask 1"
    "disk_inode_bm mounted_state = mask 1"
    by simp_all
  have len: "length (butlast many_names) = 30"
    by (simp add: many_names_length)
  from create_seq_ok [OF z env b, of "butlast many_names" S_IFREG] len
  have r30: "dir_bitmap ?t30 0 = mask 30" "inode_bm (global_sb ?t30) = mask 31"
    "disk_inode_bm ?t30 = mask 31"
    by simp_all
  from arrayfs_create_ok [OF z r30(1) _ r30(2) _ r30(3) _ env, of "last many_names" S_IFREG]
  obtain s' where c: "arrayfs_create ?t30 0 (last many_names) S_IFREG vfs_ok = (Inr (), s')"
    and ib: "inode_bm (global_sb s') = mask 32"
    by auto
  have "create_seq mounted_state 0 (butlast many_names @ [last many_names]) S_IFREG vfs_ok
      = (fst (create_seq mounted_state 0 (butlast many_names) S_IFREG vfs_ok) @ [Inr ()], s')"
    using c by (simp add: create_seq_append case_prod_unfold)
  then have t: "?t = s'"
    using many_names_split by simp
  have k: "find_first_zero_bit (dir_bitmap ?t30 0) 64 = 30"
    by (simp add: r30(1) find_first_zero_bit_mask)
  then have lt: "find_first_zero_bit (dir_bitmap ?t30 0) 64 < 64"
    by simp
  from arrayfs_create_own_slot [OF z lt c]
  have own: "bit (dir_bitmap s' 0) 30" "names_equal (name_field s' 0 30) (cstr_nth (last many_names))"
    by (simp_all add: k)
  have "(30::nat) < 64"
    by simp
  with own have "\<not> (\<forall>i<64. bit (dir_bitmap s' 0) i
      \<longrightarrow> \<not> names_equal (name_field s' 0 i) (cstr_nth (last many_names)))"
    by blast
  with first_match_cases [of s' 0 "last many_names"]
  obtain idx where fm: "first_match s' 0 (last many_names) = Some idx"
    by blast
  have "alloc_inode s' vfs_ok = (None, s')"
    using ib by (rule alloc_inode_full)
  then have "arrayfs_iget s' (entry_ino s' 0 idx) vfs_ok = (Inl ENOMEM, s')"
    by (simp add: arrayfs_iget_def vfs_ok_def)
  with arrayfs_lookup_scan [OF z, of s' "last many_names" vfs_ok] fm
  have "fst (arrayfs_lookup s' 0 (last many_names) vfs_ok) = Inl EIO"
    by simp
  with fm t show ?thesis
    by simp
qed

text \<open>
  The claim C4 as first stated fails when the inode handle cannot be obtained.  With one
  file in the root and the host unable to set up an inode object, the first matching slot
  holds inode 1 and lookup returns the I/O error.  And with no failure of the host at all:
  after 31 creates every in-memory inode object of the file system is taken, none is ever
  given back, and the lookup of the name created last, its inode no longer in the inode
  cache, finds a matching slot and returns the I/O error.
\<close>

theorem lookup_iget_failure_counterexample:
  "first_match one_file_state 0 (bytes_of ''a.txt'') = Some 0 \<and>
   entry_ino one_file_state 0 0 = 1 \<and>
   fst (arrayfs_lookup one_file_state 0 (bytes_of ''a.txt'') (vfs_ok\<lparr>kernel_alloc_ok := False\<rparr>))
     = Inl EIO \<and>
   first_match (snd (create_seq mounted_state 0 many_names S_IFREG vfs_ok)) 0 (last many_names)
     \<noteq> None \<and>
   fst (arrayfs_lookup (snd (create_seq mounted_state 0 many_names S_IFREG vfs_ok)) 0
          (last many_names) vfs_ok) = Inl EIO"
proof -
  have "fst (arrayfs_lookup one_file_state 0 (bytes_of ''a.txt'') (vfs_ok\<lparr>kernel_alloc_ok := False\<rparr>))
     = Inl EIO"
    by code_simp
  with one_file_first_match one_file_entry_ino exhausted_lookup show ?thesis
    by auto
qed

end
